theory Spec2Isabelle
  imports Main "HOL-Library.Sublist"
begin

section \<open>The i18n message extractor (compiler/src/i18n/message_extractor.ts)\<close>

subsection \<open>Data consumed and produced\<close>

text \<open>
  Modelled from the spec: the node types of html_ast.ts, which is not among the sources.
  A node is an element, a text, a comment or expansion content; only an element has a tag
  name, attributes and child nodes. The extractor reads the name of an attribute and
  hands everything else to its collaborators, so source locations are left out.
\<close>

datatype HtmlAttrAst = HtmlAttrAst (attr_name: string) (attr_value: string)

datatype HtmlAst =
    HtmlElementAst string "HtmlAttrAst list" "HtmlAst list"
  | HtmlTextAst string
  | HtmlCommentAst string
  | HtmlExpansionAst string

text \<open>
  Modelled from the spec: the class Message of message.ts, which is not among the sources
  (content, optional meaning, optional description). The function \<open>id\<close> of the same file
  is a parameter \<open>idf\<close> of everything that calls it.
\<close>

datatype Message = Message (content: string) (meaning: "string option") (description: "string option")

subsection \<open>A string-keyed JavaScript object\<close>

text \<open>
  \<open>removeDuplicates\<close> keeps its table in an object literal. The own properties are held
  in creation order. Enumerating the keys of an object lists the array indices (the
  canonical numerals below 2^32 - 1) first, in ascending numeric order, and the other
  string keys after them in creation order.
  Assigning to the key \<open>__proto__\<close> sets the prototype and creates no own property.
\<close>

type_synonym 'v js_object = "(string \<times> 'v) list"

definition digit_char :: "char \<Rightarrow> bool" where
  "digit_char c \<longleftrightarrow> c \<in> set ''0123456789''"

definition index_value :: "string \<Rightarrow> nat" where
  "index_value k = fold (\<lambda>c n. 10 * n + (of_char c - 48)) k 0"

definition array_index :: "string \<Rightarrow> bool" where
  "array_index k \<longleftrightarrow>
     k \<noteq> [] \<and> list_all digit_char k \<and> (k = ''0'' \<or> hd k \<noteq> CHR ''0'')
     \<and> index_value k \<le> 4294967294"

definition js_assign :: "'v js_object \<Rightarrow> string \<Rightarrow> 'v \<Rightarrow> 'v js_object" where
  "js_assign obj k v =
     (if k = ''__proto__'' then obj
      else if k \<in> fst ` set obj then map (\<lambda>(k', v'). if k' = k then (k', v) else (k', v')) obj
      else obj @ [(k, v)])"

definition own_keys :: "'v js_object \<Rightarrow> string list" where
  "own_keys obj =
     sort_key index_value (filter array_index (map fst obj))
     @ filter (\<lambda>k. \<not> array_index k) (map fst obj)"

text \<open>
  Modelled from the spec: the helpers \<open>contains\<close> and \<open>values\<close> of StringMapWrapper
  (facade/collection), which is not among the sources. The spec (9) has the table be a map
  keyed by identity: \<open>contains\<close> is the test for an own property, \<open>values\<close> reads the
  value of every own key in the order in which the object enumerates its keys.
\<close>

definition StringMapWrapper_contains :: "'v js_object \<Rightarrow> string \<Rightarrow> bool" where
  "StringMapWrapper_contains obj k \<longleftrightarrow> k \<in> fst ` set obj"

definition StringMapWrapper_values :: "'v js_object \<Rightarrow> 'v list" where
  "StringMapWrapper_values obj = concat (map (\<lambda>k. case map_of obj k of Some v \<Rightarrow> [v] | None \<Rightarrow> []) (own_keys obj))"

subsection \<open>removeDuplicates\<close>

definition removeDuplicates :: "(Message \<Rightarrow> string) \<Rightarrow> Message list \<Rightarrow> Message list" where
  "removeDuplicates idf messages =
     StringMapWrapper_values
       (fold (\<lambda>m uniq. if \<not> StringMapWrapper_contains uniq (idf m) then js_assign uniq (idf m) m else uniq)
          messages [])"

text \<open>The table that the loop of \<open>removeDuplicates\<close> has built after the messages \<open>ms\<close>.\<close>

definition uniq_of :: "(Message \<Rightarrow> string) \<Rightarrow> Message list \<Rightarrow> Message js_object" where
  "uniq_of idf ms =
     fold (\<lambda>m uniq. if \<not> StringMapWrapper_contains uniq (idf m) then js_assign uniq (idf m) m else uniq)
       ms []"

text \<open>The position of the first message of \<open>ms\<close> that has the identity of \<open>x\<close>.\<close>

definition first_index :: "(Message \<Rightarrow> string) \<Rightarrow> Message list \<Rightarrow> Message \<Rightarrow> nat" where
  "first_index idf ms x = length (takeWhile (\<lambda>m. idf m \<noteq> idf x) ms)"

text \<open>An identity that is an ordinary property key.\<close>

definition plain_key :: "string \<Rightarrow> bool" where
  "plain_key k \<longleftrightarrow> \<not> array_index k \<and> k \<noteq> ''__proto__''"

subsection \<open>Errors, results and collaborators\<close>

text \<open>
  Modelled from the spec: ParseError of parse_util.ts and I18nError of shared.ts, which are
  not among the sources: the diagnostics of the markup parser and the recoverable errors
  of the i18n walk, each with its message. Both kinds live in the error list of the
  extractor. A thrown value is either an I18nError, which the extractor tests for, or
  anything else.
\<close>

datatype ParseError = ParseError string | I18nError string

datatype exn = ThrownI18nError string | ThrownOther string

datatype ExtractionResult =
  ExtractionResult (messages: "Message list") (errors: "ParseError list")

text \<open>
  Modelled from the spec: the result of the markup parser (html_parser.ts) with the two
  fields that the extractor reads, its root nodes and its errors, and the interpolation
  configuration (interpolation_config.ts), a pair of delimiters. Neither file is among the
  sources. The default value of the third parameter of \<open>extract\<close> is not modelled: the
  configuration is always given.
\<close>

datatype HtmlParseTreeResult =
  HtmlParseTreeResult (rootNodes: "HtmlAst list") (parse_errors: "ParseError list")

datatype InterpolationConfig = InterpolationConfig (ic_start: string) (ic_end: string)

text \<open>
  Modelled from the spec: the class Part of shared.ts, which is not among the sources. Its
  fields are those that the extractor reads (the root element, the children and
  \<open>hasI18n\<close>, which the spec calls \<open>isTranslatable\<close>) and those that the doc comment of
  the extractor names (a root text node and the i18n property). The children are absent
  for a part that has none; the extractor tests for that before it partitions them.
\<close>

datatype Part = Part
  (rootElement: "HtmlAst option")
  (rootTextNode: "HtmlAst option")
  (children: "HtmlAst list option")
  (i18n: "string option")
  (hasI18n: bool)

text \<open>
  What the extractor is constructed with and what it imports from shared.ts, which is not
  among the sources. Each call may throw, so each returns either the thrown value or its
  result. The expression parser is only ever handed on to these functions and is part of
  them here. \<open>partition\<close> returns the errors it pushes onto the error list it is given.
\<close>

record Collaborators =
  htmlParser_parse :: "string \<Rightarrow> string \<Rightarrow> bool \<Rightarrow> exn + HtmlParseTreeResult"
  partition :: "HtmlAst list \<Rightarrow> string list \<Rightarrow> exn + (Part list \<times> ParseError list)"
  createMessage :: "Part \<Rightarrow> InterpolationConfig \<Rightarrow> exn + Message"
  messageFromI18nAttribute :: "InterpolationConfig \<Rightarrow> HtmlAst \<Rightarrow> HtmlAttrAst \<Rightarrow> exn + Message"
  messageFromAttribute :: "InterpolationConfig \<Rightarrow> HtmlAttrAst \<Rightarrow> exn + Message"
  implicitTags :: "string list"
  implicitAttrs :: "string \<rightharpoonup> string list"

text \<open>
  The two mutable fields of a MessageExtractor instance. A method returns the instance as
  it leaves it, or the value it throws. The fields at the time of a throw are not kept:
  the next call of \<open>extract\<close> overwrites both before it reads either.
\<close>

record MessageExtractor =
  this_messages :: "Message list"
  this_errors :: "ParseError list"

text \<open>
  Modelled from the spec: the constant I18N_ATTR_PREFIX of shared.ts, which is not among
  the sources. The spec writes the prefixed form of the attribute title as i18n-title.
\<close>

definition I18N_ATTR_PREFIX :: string where
  "I18N_ATTR_PREFIX = ''i18n-''"

definition startsWith :: "string \<Rightarrow> string \<Rightarrow> bool" where
  "startsWith s p \<longleftrightarrow> take (length p) s = p"

definition substring :: "string \<Rightarrow> nat \<Rightarrow> string" where
  "substring s n = drop n s"

subsection \<open>Messages from the attributes of one element\<close>

text \<open>
  The loop over the prefixed attributes. The base name is pushed before the message is
  built; an I18nError is caught and pushed onto the errors, anything else is thrown again.
\<close>

fun i18n_attrs_forEach ::
  "Collaborators \<Rightarrow> InterpolationConfig \<Rightarrow> HtmlAst \<Rightarrow> HtmlAttrAst list
   \<Rightarrow> MessageExtractor \<times> string list \<Rightarrow> exn + MessageExtractor \<times> string list" where
  "i18n_attrs_forEach C ic p [] acc = Inr acc"
| "i18n_attrs_forEach C ic p (attr # rest) (this, explicitAttrs) =
     (let explicitAttrs' = explicitAttrs @ [substring (attr_name attr) (length I18N_ATTR_PREFIX)] in
      case messageFromI18nAttribute C ic p attr of
        Inr m \<Rightarrow>
          i18n_attrs_forEach C ic p rest (this\<lparr>this_messages := this_messages this @ [m]\<rparr>, explicitAttrs')
      | Inl (ThrownI18nError e) \<Rightarrow>
          i18n_attrs_forEach C ic p rest (this\<lparr>this_errors := this_errors this @ [I18nError e]\<rparr>, explicitAttrs')
      | Inl (ThrownOther x) \<Rightarrow> Inl (ThrownOther x))"

text \<open>The loop over the implicit attributes; nothing is caught here.\<close>

fun implicit_attrs_forEach ::
  "Collaborators \<Rightarrow> InterpolationConfig \<Rightarrow> HtmlAttrAst list \<Rightarrow> MessageExtractor
   \<Rightarrow> exn + MessageExtractor" where
  "implicit_attrs_forEach C ic [] this = Inr this"
| "implicit_attrs_forEach C ic (attr # rest) this =
     (case messageFromAttribute C ic attr of
        Inl e \<Rightarrow> Inl e
      | Inr m \<Rightarrow> implicit_attrs_forEach C ic rest (this\<lparr>this_messages := this_messages this @ [m]\<rparr>))"

text \<open>
  The table of implicit attributes is a plain object that is read with
  \<open>this._implicitAttrs[p.name]\<close>. The field \<open>implicitAttrs\<close> holds its own properties. A
  name that is no own property is looked up in Object.prototype: the value found there is
  a function or, for \<open>__proto__\<close>, the prototype itself. Such a value is present and is
  not an array; it has no method \<open>indexOf\<close>.
\<close>

datatype table_value = StringArray "string list" | NotAnArray

definition object_prototype_names :: "string list" where
  "object_prototype_names =
     [''constructor'', ''hasOwnProperty'', ''isPrototypeOf'', ''propertyIsEnumerable'',
      ''toLocaleString'', ''toString'', ''valueOf'', ''__defineGetter__'', ''__defineSetter__'',
      ''__lookupGetter__'', ''__lookupSetter__'', ''__proto__'']"

definition table_get :: "(string \<rightharpoonup> string list) \<Rightarrow> string \<Rightarrow> table_value option" where
  "table_get table k =
     (case table k of
        Some as \<Rightarrow> Some (StringArray as)
      | None \<Rightarrow> if k \<in> set object_prototype_names then Some NotAnArray else None)"

text \<open>
  The last filter, \<open>transAttrs.indexOf(attr.name) > -1\<close>. Its callback runs once for
  each attribute that the filters before it have left; on a value that is not an array
  the first run raises a TypeError.
\<close>

fun indexOf_filter :: "table_value \<Rightarrow> HtmlAttrAst list \<Rightarrow> exn + HtmlAttrAst list" where
  "indexOf_filter (StringArray transAttrs) attrs =
     Inr (filter (\<lambda>attr. attr_name attr \<in> set transAttrs) attrs)"
| "indexOf_filter NotAnArray [] = Inr []"
| "indexOf_filter NotAnArray (attr # attrs) = Inl (ThrownOther ''TypeError'')"

text \<open>
  The parameter is typed as an element. On any other node \<open>p.attrs\<close> is undefined and
  the call of \<open>filter\<close> on it raises a TypeError.
\<close>

fun extractMessagesFromAttributes ::
  "Collaborators \<Rightarrow> InterpolationConfig \<Rightarrow> HtmlAst \<Rightarrow> MessageExtractor \<Rightarrow> exn + MessageExtractor" where
  "extractMessagesFromAttributes C ic (HtmlElementAst name attrs cs) this =
     (let transAttrs = (case table_get (implicitAttrs C) name of Some v \<Rightarrow> v | None \<Rightarrow> StringArray []) in
      case i18n_attrs_forEach C ic (HtmlElementAst name attrs cs)
             (filter (\<lambda>attr. startsWith (attr_name attr) I18N_ATTR_PREFIX) attrs) (this, []) of
        Inl e \<Rightarrow> Inl e
      | Inr (this', explicitAttrs) \<Rightarrow>
          (case indexOf_filter transAttrs
                  (filter (\<lambda>attr. attr_name attr \<notin> set explicitAttrs)
                    (filter (\<lambda>attr. \<not> startsWith (attr_name attr) I18N_ATTR_PREFIX) attrs)) of
             Inl e \<Rightarrow> Inl e
           | Inr candidates \<Rightarrow> implicit_attrs_forEach C ic candidates this'))"
| "extractMessagesFromAttributes C ic p this = Inl (ThrownOther ''TypeError'')"

subsection \<open>The attribute walk\<close>

fun recurseToExtractMessagesFromAttributes ::
  "Collaborators \<Rightarrow> InterpolationConfig \<Rightarrow> HtmlAst list \<Rightarrow> MessageExtractor \<Rightarrow> exn + MessageExtractor" where
  "recurseToExtractMessagesFromAttributes C ic [] this = Inr this"
| "recurseToExtractMessagesFromAttributes C ic (HtmlElementAst name attrs cs # nodes) this =
     (case extractMessagesFromAttributes C ic (HtmlElementAst name attrs cs) this of
        Inl e \<Rightarrow> Inl e
      | Inr this' \<Rightarrow>
          (case recurseToExtractMessagesFromAttributes C ic cs this' of
             Inl e \<Rightarrow> Inl e
           | Inr this'' \<Rightarrow> recurseToExtractMessagesFromAttributes C ic nodes this''))"
| "recurseToExtractMessagesFromAttributes C ic (n # nodes) this =
     recurseToExtractMessagesFromAttributes C ic nodes this"

subsection \<open>The walk over the parts\<close>

text \<open>
  \<open>_recurse\<close> and \<open>_extractMessagesFromPart\<close> call each other, and the children of a
  part are whatever \<open>partition\<close> returns, so the nesting of the calls is bounded by fuel:
  \<open>None\<close> is a walk that nests deeper than the fuel allows. A part to be translated
  whose children are absent raises a TypeError at \<open>nodes.forEach\<close>.
\<close>

fun recurse ::
  "nat \<Rightarrow> Collaborators \<Rightarrow> InterpolationConfig \<Rightarrow> HtmlAst list option \<Rightarrow> MessageExtractor
   \<Rightarrow> (exn + MessageExtractor) option"
and parts_forEach ::
  "nat \<Rightarrow> Collaborators \<Rightarrow> InterpolationConfig \<Rightarrow> Part list \<Rightarrow> MessageExtractor
   \<Rightarrow> (exn + MessageExtractor) option"
and extractMessagesFromPart ::
  "nat \<Rightarrow> Collaborators \<Rightarrow> InterpolationConfig \<Rightarrow> Part \<Rightarrow> MessageExtractor
   \<Rightarrow> (exn + MessageExtractor) option" where
  "recurse fuel C ic None this = Some (Inr this)"
| "recurse 0 C ic (Some nodes) this = None"
| "recurse (Suc fuel) C ic (Some nodes) this =
     (case partition C nodes (implicitTags C) of
        Inl e \<Rightarrow> Some (Inl e)
      | Inr (parts, errs) \<Rightarrow>
          parts_forEach fuel C ic parts (this\<lparr>this_errors := this_errors this @ errs\<rparr>))"
| "parts_forEach fuel C ic [] this = Some (Inr this)"
| "parts_forEach fuel C ic (part # parts) this =
     (case extractMessagesFromPart fuel C ic part this of
        None \<Rightarrow> None
      | Some (Inl e) \<Rightarrow> Some (Inl e)
      | Some (Inr this') \<Rightarrow> parts_forEach fuel C ic parts this')"
| "extractMessagesFromPart fuel C ic part this =
     (case (if hasI18n part then
              (case createMessage C part ic of
                 Inl e \<Rightarrow> Some (Inl e)
               | Inr m \<Rightarrow>
                   (case children part of
                      None \<Rightarrow> Some (Inl (ThrownOther ''TypeError''))
                    | Some nodes \<Rightarrow>
                        Some (recurseToExtractMessagesFromAttributes C ic nodes
                                (this\<lparr>this_messages := this_messages this @ [m]\<rparr>))))
            else recurse fuel C ic (children part) this) of
        None \<Rightarrow> None
      | Some (Inl e) \<Rightarrow> Some (Inl e)
      | Some (Inr this') \<Rightarrow>
          (case rootElement part of
             Some p \<Rightarrow> Some (extractMessagesFromAttributes C ic p this')
           | None \<Rightarrow> Some (Inr this')))"

subsection \<open>extract\<close>

text \<open>
  The method \<open>extract\<close>, named \<open>extract_template\<close> because the plain name is a
  command of Isabelle. Both fields are overwritten first. The result holds the messages and the errors of the
  walk followed by those of the markup parser; the instance keeps its fields.
\<close>

definition extract_template ::
  "nat \<Rightarrow> Collaborators \<Rightarrow> string \<Rightarrow> string \<Rightarrow> InterpolationConfig \<Rightarrow> MessageExtractor
   \<Rightarrow> (exn + ExtractionResult \<times> MessageExtractor) option" where
  "extract_template fuel C template sourceUrl ic this0 =
     (let this = this0\<lparr>this_messages := [], this_errors := []\<rparr> in
      case htmlParser_parse C template sourceUrl True of
        Inl e \<Rightarrow> Some (Inl e)
      | Inr res \<Rightarrow>
          (case (if length (parse_errors res) = 0
                 then recurse fuel C ic (Some (rootNodes res)) this
                 else Some (Inr this)) of
             None \<Rightarrow> None
           | Some (Inl e) \<Rightarrow> Some (Inl e)
           | Some (Inr this') \<Rightarrow>
               Some (Inr (ExtractionResult (this_messages this') (this_errors this' @ parse_errors res),
                          this'))))"

subsection \<open>Notions used to state the properties of the walk\<close>

text \<open>An attribute with the i18n prefix, and the name that it claims.\<close>

definition prefixed :: "HtmlAttrAst \<Rightarrow> bool" where
  "prefixed attr \<longleftrightarrow> startsWith (attr_name attr) I18N_ATTR_PREFIX"

definition base_name :: "HtmlAttrAst \<Rightarrow> string" where
  "base_name attr = substring (attr_name attr) (length I18N_ATTR_PREFIX)"

text \<open>
  The array that the implicit-attribute table holds for a tag, empty when the table has
  no array of its own for it.
\<close>

definition transAttrs_of :: "Collaborators \<Rightarrow> string \<Rightarrow> string list" where
  "transAttrs_of C name = (case implicitAttrs C name of Some as \<Rightarrow> as | None \<Rightarrow> [])"

text \<open>
  The value that \<open>_extractMessagesFromAttributes\<close> binds to \<open>transAttrs\<close>, the attributes
  that reach its last filter when the first loop has claimed the names \<open>explicitAttrs\<close>,
  and the condition under which that filter raises the TypeError.
\<close>

definition transAttrs_value :: "Collaborators \<Rightarrow> string \<Rightarrow> table_value" where
  "transAttrs_value C name =
     (case table_get (implicitAttrs C) name of Some v \<Rightarrow> v | None \<Rightarrow> StringArray [])"

definition unclaimed :: "string list \<Rightarrow> HtmlAttrAst list \<Rightarrow> HtmlAttrAst list" where
  "unclaimed explicitAttrs attrs =
     filter (\<lambda>attr. attr_name attr \<notin> set explicitAttrs)
       (filter (\<lambda>attr. \<not> startsWith (attr_name attr) I18N_ATTR_PREFIX) attrs)"

definition raises_TypeError :: "Collaborators \<Rightarrow> string \<Rightarrow> string list \<Rightarrow> HtmlAttrAst list \<Rightarrow> bool" where
  "raises_TypeError C name explicitAttrs attrs \<longleftrightarrow>
     transAttrs_value C name = NotAnArray \<and> unclaimed explicitAttrs attrs \<noteq> []"

text \<open>
  The attributes that the second loop of \<open>_extractMessagesFromAttributes\<close> receives when
  the first loop has claimed the names \<open>explicitAttrs\<close> and the table holds the array
  \<open>transAttrs\<close> for the tag.
\<close>

definition implicit_candidates :: "string list \<Rightarrow> string list \<Rightarrow> HtmlAttrAst list \<Rightarrow> HtmlAttrAst list" where
  "implicit_candidates transAttrs explicitAttrs attrs =
     filter (\<lambda>attr. attr_name attr \<in> set transAttrs)
       (filter (\<lambda>attr. attr_name attr \<notin> set explicitAttrs)
         (filter (\<lambda>attr. \<not> startsWith (attr_name attr) I18N_ATTR_PREFIX) attrs))"

text \<open>
  What the builder for prefixed attributes does on a list of attributes of the element
  \<open>p\<close>: the messages it returns, the I18nErrors it raises, and the first other value that
  it throws.
\<close>

definition built_messages ::
  "Collaborators \<Rightarrow> InterpolationConfig \<Rightarrow> HtmlAst \<Rightarrow> HtmlAttrAst list \<Rightarrow> Message list" where
  "built_messages C ic p as =
     concat (map (\<lambda>a. case messageFromI18nAttribute C ic p a of Inr m \<Rightarrow> [m] | Inl e \<Rightarrow> []) as)"

definition caught_errors ::
  "Collaborators \<Rightarrow> InterpolationConfig \<Rightarrow> HtmlAst \<Rightarrow> HtmlAttrAst list \<Rightarrow> ParseError list" where
  "caught_errors C ic p as =
     concat (map (\<lambda>a. case messageFromI18nAttribute C ic p a of
                         Inl (ThrownI18nError e) \<Rightarrow> [I18nError e] | _ \<Rightarrow> []) as)"

fun first_rethrown ::
  "Collaborators \<Rightarrow> InterpolationConfig \<Rightarrow> HtmlAst \<Rightarrow> HtmlAttrAst list \<Rightarrow> string option" where
  "first_rethrown C ic p [] = None"
| "first_rethrown C ic p (a # as) =
     (case messageFromI18nAttribute C ic p a of
        Inl (ThrownOther x) \<Rightarrow> Some x
      | _ \<Rightarrow> first_rethrown C ic p as)"

text \<open>The messages that the builder for implicit attributes returns on a list.\<close>

definition implicit_messages ::
  "Collaborators \<Rightarrow> InterpolationConfig \<Rightarrow> HtmlAttrAst list \<Rightarrow> Message list" where
  "implicit_messages C ic as =
     concat (map (\<lambda>a. case messageFromAttribute C ic a of Inr m \<Rightarrow> [m] | Inl e \<Rightarrow> []) as)"

text \<open>
  The nodes below a sibling list: the siblings and, for every element among the nodes
  below, its children. \<open>descendant_elements\<close> lists the elements among them in
  document order.
\<close>

inductive_set subnodes :: "HtmlAst list \<Rightarrow> HtmlAst set" for ns :: "HtmlAst list" where
  sibling: "n \<in> set ns \<Longrightarrow> n \<in> subnodes ns"
| child: "HtmlElementAst name attrs cs \<in> subnodes ns \<Longrightarrow> c \<in> set cs \<Longrightarrow> c \<in> subnodes ns"

fun is_element :: "HtmlAst \<Rightarrow> bool" where
  "is_element (HtmlElementAst name attrs cs) = True"
| "is_element n = False"

fun descendant_elements :: "HtmlAst list \<Rightarrow> HtmlAst list" where
  "descendant_elements [] = []"
| "descendant_elements (HtmlElementAst name attrs cs # ns) =
     HtmlElementAst name attrs cs # descendant_elements cs @ descendant_elements ns"
| "descendant_elements (n # ns) = descendant_elements ns"

text \<open>\<open>_extractMessagesFromAttributes\<close> on one element after the other, until one throws.\<close>

fun elements_forEach ::
  "Collaborators \<Rightarrow> InterpolationConfig \<Rightarrow> HtmlAst list \<Rightarrow> MessageExtractor \<Rightarrow> exn + MessageExtractor" where
  "elements_forEach C ic [] this = Inr this"
| "elements_forEach C ic (p # ps) this =
     (case extractMessagesFromAttributes C ic p this of
        Inl e \<Rightarrow> Inl e
      | Inr this' \<Rightarrow> elements_forEach C ic ps this')"

text \<open>The content, meaning and identity of every message of a result, in order.\<close>

definition triples :: "(Message \<Rightarrow> string) \<Rightarrow> ExtractionResult \<Rightarrow> (string \<times> string option \<times> string) list" where
  "triples idf r = map (\<lambda>m. (content m, meaning m, idf m)) (messages r)"

text \<open>
  The selection policy in the words of the spec: an attribute is translatable implicitly
  when it has no prefix, no prefixed attribute of the element claims its name, and its
  name is in the table of the tag.
\<close>

definition selected_implicit :: "Collaborators \<Rightarrow> string \<Rightarrow> HtmlAttrAst list \<Rightarrow> HtmlAttrAst \<Rightarrow> bool" where
  "selected_implicit C name attrs a \<longleftrightarrow>
     \<not> prefixed a
     \<and> \<not> (\<exists>b \<in> set attrs. prefixed b \<and> base_name b = attr_name a)
     \<and> attr_name a \<in> set (transAttrs_of C name)"

text \<open>
  The messages that one attribute of an element yields: the message that the builder for
  prefixed attributes returns for an attribute with the prefix, the message that the
  builder for implicit attributes returns for an attribute selected implicitly, and none
  otherwise or when the builder raises.
\<close>

definition attribute_messages ::
  "Collaborators \<Rightarrow> InterpolationConfig \<Rightarrow> string \<Rightarrow> HtmlAttrAst list \<Rightarrow> HtmlAst list
   \<Rightarrow> HtmlAttrAst \<Rightarrow> Message list" where
  "attribute_messages C ic name attrs cs a =
     (if prefixed a
      then (case messageFromI18nAttribute C ic (HtmlElementAst name attrs cs) a of
              Inr m \<Rightarrow> [m] | Inl e \<Rightarrow> [])
      else if selected_implicit C name attrs a
      then (case messageFromAttribute C ic a of Inr m \<Rightarrow> [m] | Inl e \<Rightarrow> [])
      else [])"

text \<open>
  The messages and the errors that one element adds when no call throws past it: those of
  its prefixed attributes first, then those of its implicit attributes.
\<close>

fun element_messages :: "Collaborators \<Rightarrow> InterpolationConfig \<Rightarrow> HtmlAst \<Rightarrow> Message list" where
  "element_messages C ic (HtmlElementAst name attrs cs) =
     built_messages C ic (HtmlElementAst name attrs cs) (filter prefixed attrs)
     @ implicit_messages C ic
         (implicit_candidates (transAttrs_of C name) (map base_name (filter prefixed attrs)) attrs)"
| "element_messages C ic n = []"

fun element_errors :: "Collaborators \<Rightarrow> InterpolationConfig \<Rightarrow> HtmlAst \<Rightarrow> ParseError list" where
  "element_errors C ic (HtmlElementAst name attrs cs) =
     caught_errors C ic (HtmlElementAst name attrs cs) (filter prefixed attrs)"
| "element_errors C ic n = []"

text \<open>
  An element whose attributes are processed to the end: no builder of a prefixed attribute
  throws anything but an I18nError, the last filter raises no TypeError, and the builder
  of every implicit attribute returns.
\<close>

fun element_completes :: "Collaborators \<Rightarrow> InterpolationConfig \<Rightarrow> HtmlAst \<Rightarrow> bool" where
  "element_completes C ic (HtmlElementAst name attrs cs) =
     (first_rethrown C ic (HtmlElementAst name attrs cs) (filter prefixed attrs) = None
      \<and> \<not> raises_TypeError C name (map base_name (filter prefixed attrs)) attrs
      \<and> list_all (\<lambda>a. case messageFromAttribute C ic a of Inr m \<Rightarrow> True | Inl e \<Rightarrow> False)
            (implicit_candidates (transAttrs_of C name) (map base_name (filter prefixed attrs)) attrs))"
| "element_completes C ic n = False"

subsection \<open>The partitioner\<close>

text \<open>
  Modelled from the spec: \<open>partition\<close> of shared.ts, which is not among the sources. The
  siblings are scanned from left to right (4.1). An element is a part of its own: the
  element is the root element of the part and the children of the part are the children
  of the element, which is what the message of the part is built from (4.3, scenario 1)
  and what the extractor recurses into before it inspects the root element; the part is
  translated when the element has the marker attribute or a tag among the implicit tags.
  A text is a part with that root text node and no children, not translated. An opening
  marker comment starts a translated part whose children are the siblings up to the
  closing marker comment; the two comments are in no part. Any other node outside such a
  span, a comment or expansion content, is in no part. An opening comment that no closing
  comment follows is an error that ends the scan: the siblings after it are in no part.
  In these last two cases the definition follows the partition of the repository; the spec
  words them otherwise (4.1: the open span is kept as a part, a closing comment that
  nothing opened is reported). The name of the marker attribute and the texts of the
  marker comments are parameters; the i18n property of a part is the value of the marker
  attribute for an element and what the opening comment says after its marker for a span.
\<close>

fun is_comment_with :: "(string \<Rightarrow> bool) \<Rightarrow> HtmlAst \<Rightarrow> bool" where
  "is_comment_with P (HtmlCommentAst c) = P c"
| "is_comment_with P n = False"

fun comment_text :: "HtmlAst \<Rightarrow> string" where
  "comment_text (HtmlCommentAst c) = c"
| "comment_text n = []"


text \<open>
  The i18n property of a span: the text of its opening comment without the leading i18n
  and an optional colon, trimmed.
\<close>

definition js_space :: "char \<Rightarrow> bool" where
  "js_space c \<longleftrightarrow> c \<in> set [CHR '' '', CHR 0x09, CHR 0x0A, CHR 0x0B, CHR 0x0C, CHR 0x0D]"

definition trim :: "string \<Rightarrow> string" where
  "trim s = rev (dropWhile js_space (rev (dropWhile js_space s)))"

definition span_i18n :: "string \<Rightarrow> string" where
  "span_i18n c =
     (let rest = (if startsWith c ''i18n'' then drop 4 c else c) in
      trim (if startsWith rest '':'' then drop 1 rest else rest))"

definition marker_value :: "string \<Rightarrow> HtmlAttrAst list \<Rightarrow> string option" where
  "marker_value marker attrs = map_option attr_value (find (\<lambda>a. attr_name a = marker) attrs)"

fun node_parts :: "string \<Rightarrow> string list \<Rightarrow> HtmlAst \<Rightarrow> Part list" where
  "node_parts marker tags (HtmlElementAst name attrs cs) =
     [Part (Some (HtmlElementAst name attrs cs)) None (Some cs) (marker_value marker attrs)
        (marker_value marker attrs \<noteq> None \<or> name \<in> set tags)]"
| "node_parts marker tags (HtmlTextAst t) = [Part None (Some (HtmlTextAst t)) None None False]"
| "node_parts marker tags n = []"

fun partition_scan ::
  "string \<Rightarrow> (string \<Rightarrow> bool) \<Rightarrow> (string \<Rightarrow> bool) \<Rightarrow> string list
   \<Rightarrow> (string \<times> HtmlAst list) option \<Rightarrow> HtmlAst list \<Rightarrow> Part list \<times> ParseError list" where
  "partition_scan marker opens closes tags None [] = ([], [])"
| "partition_scan marker opens closes tags (Some (c, span)) [] =
     ([], [I18nError (''Missing closing '' @ [CHR 0x27] @ ''i18n'' @ [CHR 0x27] @ '' comment.'')])"
| "partition_scan marker opens closes tags None (n # ns) =
     (if is_comment_with opens n
      then partition_scan marker opens closes tags (Some (span_i18n (comment_text n), [])) ns
      else (case partition_scan marker opens closes tags None ns of
              (ps, es) \<Rightarrow> (node_parts marker tags n @ ps, es)))"
| "partition_scan marker opens closes tags (Some (c, span)) (n # ns) =
     (if is_comment_with closes n
      then (case partition_scan marker opens closes tags None ns of
              (ps, es) \<Rightarrow> (Part None None (Some span) (Some c) True # ps, es))
      else partition_scan marker opens closes tags (Some (c, span @ [n])) ns)"

definition partition_spec ::
  "string \<Rightarrow> (string \<Rightarrow> bool) \<Rightarrow> (string \<Rightarrow> bool) \<Rightarrow> HtmlAst list \<Rightarrow> string list
   \<Rightarrow> Part list \<times> ParseError list" where
  "partition_spec marker opens closes siblings tags = partition_scan marker opens closes tags None siblings"





text \<open>
  The marker comments: a comment whose text begins with i18n opens a span (the second
  scenario of the spec writes it i18n, and what follows carries the meaning and the
  description), the comment /i18n closes it.
\<close>

definition scenario_opens :: "string \<Rightarrow> bool" where
  "scenario_opens c \<longleftrightarrow> startsWith c ''i18n''"

definition scenario_closes :: "string \<Rightarrow> bool" where
  "scenario_closes c \<longleftrightarrow> c = ''/i18n''"

subsection \<open>Examples to run the definitions on\<close>

text \<open>
  An identity of the kind the spec describes: a key derived from the meaning and the
  content of a message.
\<close>

definition example_id :: "Message \<Rightarrow> string" where
  "example_id m = ''$'' @ (case meaning m of Some s \<Rightarrow> s | None \<Rightarrow> []) @ ''|'' @ content m"

text \<open>
  Collaborators to run the walk on. The partition is the partitioner above with the
  marker attribute i18n and the marker comments of the spec. The builder for a
  prefixed attribute takes the content from the attribute that the prefixed one names and
  the meaning and the description from the value of the prefixed one; it raises an
  I18nError when that value has more than one bar or the element has no such attribute,
  and throws another error when the interpolation markers are empty. The markup parser
  knows two templates, one of them malformed.
\<close>

definition example_partition :: "HtmlAst list \<Rightarrow> string list \<Rightarrow> exn + (Part list \<times> ParseError list)" where
  "example_partition nodes tags = Inr (partition_spec ''i18n'' scenario_opens scenario_closes nodes tags)"

fun node_text :: "HtmlAst \<Rightarrow> string" where
  "node_text (HtmlTextAst t) = t"
| "node_text n = ''<ph/>''"

definition example_createMessage :: "Part \<Rightarrow> InterpolationConfig \<Rightarrow> exn + Message" where
  "example_createMessage part ic =
     Inr (Message (concat (map node_text (case children part of Some ns \<Rightarrow> ns | None \<Rightarrow> [])))
            (i18n part) None)"

fun example_messageFromI18nAttribute ::
  "InterpolationConfig \<Rightarrow> HtmlAst \<Rightarrow> HtmlAttrAst \<Rightarrow> exn + Message" where
  "example_messageFromI18nAttribute ic (HtmlElementAst name attrs cs) attr =
     (if ic_start ic = [] then Inl (ThrownOther ''empty interpolation marker'')
      else if 1 < count_list (attr_value attr) CHR ''|'' then Inl (ThrownI18nError ''Malformed marker value'')
      else case find (\<lambda>a. attr_name a = base_name attr) attrs of
             Some a \<Rightarrow>
               Inr (Message (attr_value a)
                      (Some (takeWhile (\<lambda>c. c \<noteq> CHR ''|'') (attr_value attr)))
                      (Some (drop 1 (dropWhile (\<lambda>c. c \<noteq> CHR ''|'') (attr_value attr)))))
           | None \<Rightarrow> Inl (ThrownI18nError (''Missing attribute '' @ base_name attr)))"
| "example_messageFromI18nAttribute ic n attr = Inl (ThrownOther ''TypeError'')"

definition example_messageFromAttribute :: "InterpolationConfig \<Rightarrow> HtmlAttrAst \<Rightarrow> exn + Message" where
  "example_messageFromAttribute ic attr = Inr (Message (attr_value attr) None None)"

definition example_document :: "HtmlAst list" where
  "example_document =
     [HtmlElementAst ''div'' [HtmlAttrAst ''i18n'' ''greeting'']
        [HtmlTextAst ''hello'',
         HtmlElementAst ''b''
           [HtmlAttrAst ''i18n-title'' ''tm'', HtmlAttrAst ''title'' ''T'', HtmlAttrAst ''i18n-alt'' ''am'']
           [HtmlTextAst ''x'']],
      HtmlElementAst ''p'' [HtmlAttrAst ''title'' ''P''] []]"

definition example_parse :: "string \<Rightarrow> string \<Rightarrow> bool \<Rightarrow> exn + HtmlParseTreeResult" where
  "example_parse template sourceUrl flag =
     (if template = ''<'' then Inr (HtmlParseTreeResult [] [ParseError ''Unexpected end of input''])
      else Inr (HtmlParseTreeResult example_document []))"

definition example_collaborators :: Collaborators where
  "example_collaborators =
     \<lparr>htmlParser_parse = example_parse,
      partition = example_partition,
      createMessage = example_createMessage,
      messageFromI18nAttribute = example_messageFromI18nAttribute,
      messageFromAttribute = example_messageFromAttribute,
      implicitTags = [],
      implicitAttrs = [''b'' \<mapsto> [''title''], ''p'' \<mapsto> [''title'']]\<rparr>"

definition example_ic :: InterpolationConfig where
  "example_ic = InterpolationConfig ''{{'' ''}}''"

section \<open>Properties of removeDuplicates\<close>

lemma uniq_of_snoc:
  "uniq_of idf (xs @ [x]) =
     (if \<not> StringMapWrapper_contains (uniq_of idf xs) (idf x) then js_assign (uniq_of idf xs) (idf x) x else uniq_of idf xs)"
  by (simp add: uniq_of_def)

lemma uniq_of_keys:
  assumes "\<forall>m. plain_key (idf m)"
  shows "distinct (map fst (uniq_of idf ms)) \<and> (\<forall>(k, v) \<in> set (uniq_of idf ms). k = idf v)"
proof (induction ms rule: rev_induct)
  case Nil
  show ?case by (simp add: uniq_of_def)
next
  case (snoc x xs)
  have "idf x \<noteq> ''__proto__''" using assms by (simp add: plain_key_def)
  with snoc show ?case
    by (auto simp: uniq_of_snoc StringMapWrapper_contains_def js_assign_def)
qed

lemma values_plain:
  assumes "distinct (map fst obj)" and "\<forall>k \<in> fst ` set obj. \<not> array_index k"
  shows "StringMapWrapper_values obj = map snd obj"
proof -
  have k: "own_keys obj = map fst obj"
    using assms(2) by (simp add: own_keys_def filter_empty_conv)
  have "concat (map (\<lambda>k. case map_of obj k of Some v \<Rightarrow> [v] | None \<Rightarrow> []) (map fst ys)) = map snd ys"
    if "set ys \<subseteq> set obj" for ys
    using that assms(1) by (induction ys) auto
  then show ?thesis by (simp add: StringMapWrapper_values_def k)
qed

lemma removeDuplicates_uniq:
  assumes "\<forall>m. plain_key (idf m)"
  shows "removeDuplicates idf ms = map snd (uniq_of idf ms)"
proof -
  have "\<forall>k \<in> fst ` set (uniq_of idf ms). \<not> array_index k"
    using uniq_of_keys [OF assms, of ms] assms by (auto simp: plain_key_def)
  then show ?thesis
    using uniq_of_keys [OF assms, of ms]
    by (simp add: removeDuplicates_def uniq_of_def [symmetric] values_plain)
qed

lemma removeDuplicates_Nil: "removeDuplicates idf [] = []"
  by (simp add: removeDuplicates_def StringMapWrapper_values_def own_keys_def)

lemma removeDuplicates_snoc:
  assumes "\<forall>m. plain_key (idf m)"
  shows "removeDuplicates idf (xs @ [x]) =
     (if idf x \<in> idf ` set (removeDuplicates idf xs) then removeDuplicates idf xs
      else removeDuplicates idf xs @ [x])"
proof -
  have p: "idf x \<noteq> ''__proto__''" using assms by (simp add: plain_key_def)
  have ks: "fst ` set (uniq_of idf xs) = idf ` snd ` set (uniq_of idf xs)"
    using uniq_of_keys [OF assms, of xs] by (force simp: image_iff)
  show ?thesis
    using p ks
    by (simp add: removeDuplicates_uniq [OF assms] uniq_of_snoc StringMapWrapper_contains_def
        js_assign_def image_image)
qed


lemma find_snoc:
  "find P (xs @ [x]) = (case find P xs of None \<Rightarrow> (if P x then Some x else None) | Some y \<Rightarrow> Some y)"
  by (induction xs) auto

lemma length_takeWhile_lt:
  "z \<in> set xs \<Longrightarrow> \<not> P z \<Longrightarrow> length (takeWhile P xs) < length xs"
  by (induction xs) auto

lemma first_index_old:
  assumes "idf y \<in> idf ` set xs"
  shows "first_index idf (xs @ [x]) y = first_index idf xs y" and "first_index idf xs y < length xs"
proof -
  from assms obtain z where z: "z \<in> set xs" "\<not> idf z \<noteq> idf y" by auto
  then show "first_index idf (xs @ [x]) y = first_index idf xs y"
    unfolding first_index_def by (simp add: takeWhile_append1)
  from z show "first_index idf xs y < length xs"
    unfolding first_index_def by (rule length_takeWhile_lt)
qed

lemma first_index_new:
  assumes "idf x \<notin> idf ` set xs"
  shows "first_index idf (xs @ [x]) x = length xs"
proof -
  have "\<forall>m \<in> set xs. idf m \<noteq> idf x" using assms by (metis imageI)
  then show ?thesis unfolding first_index_def by (simp add: takeWhile_append2)
qed

lemma removeDuplicates_ids:
  assumes "\<forall>m. plain_key (idf m)"
  shows "idf ` set (removeDuplicates idf ms) = idf ` set ms"
  by (induction ms rule: rev_induct)
     (auto simp: removeDuplicates_Nil removeDuplicates_snoc [OF assms])

lemma removeDuplicates_length:
  assumes "\<forall>m. plain_key (idf m)"
  shows "length (removeDuplicates idf ms) \<le> length ms"
  by (induction ms rule: rev_induct)
     (auto simp: removeDuplicates_Nil removeDuplicates_snoc [OF assms])

lemma removeDuplicates_distinct:
  assumes "\<forall>m. plain_key (idf m)"
  shows "distinct (map idf (removeDuplicates idf ms))"
  by (induction ms rule: rev_induct)
     (auto simp: removeDuplicates_Nil removeDuplicates_snoc [OF assms])

lemma removeDuplicates_first:
  assumes "\<forall>m. plain_key (idf m)"
  shows "\<forall>m \<in> set (removeDuplicates idf ms). find (\<lambda>x. idf x = idf m) ms = Some m"
proof (induction ms rule: rev_induct)
  case Nil
  show ?case by (simp add: removeDuplicates_Nil)
next
  case (snoc x xs)
  show ?case
  proof
    fix m assume m: "m \<in> set (removeDuplicates idf (xs @ [x]))"
    show "find (\<lambda>y. idf y = idf m) (xs @ [x]) = Some m"
    proof (cases "m \<in> set (removeDuplicates idf xs)")
      case True
      with snoc show ?thesis by (simp add: find_snoc)
    next
      case False
      with m have mx: "m = x" and new: "idf x \<notin> idf ` set (removeDuplicates idf xs)"
        by (auto simp: removeDuplicates_snoc [OF assms] split: if_splits)
      from new have "idf x \<notin> idf ` set xs" by (simp add: removeDuplicates_ids [OF assms])
      then have "find (\<lambda>y. idf y = idf x) xs = None" unfolding find_None_iff by (metis imageI)
      then show ?thesis by (simp add: find_snoc mx)
    qed
  qed
qed

lemma removeDuplicates_order:
  assumes "\<forall>m. plain_key (idf m)"
  shows "sorted_wrt (\<lambda>a b. first_index idf ms a < first_index idf ms b) (removeDuplicates idf ms)"
proof (induction ms rule: rev_induct)
  case Nil
  show ?case by (simp add: removeDuplicates_Nil)
next
  case (snoc x xs)
  let ?out = "removeDuplicates idf xs"
  have old: "first_index idf (xs @ [x]) a = first_index idf xs a" "first_index idf xs a < length xs"
    if "a \<in> set ?out" for a
  proof -
    from that have "idf a \<in> idf ` set xs" using removeDuplicates_ids [OF assms, of xs] by blast
    then show "first_index idf (xs @ [x]) a = first_index idf xs a" "first_index idf xs a < length xs"
      by (rule first_index_old)+
  qed
  have keep: "sorted_wrt (\<lambda>a b. first_index idf (xs @ [x]) a < first_index idf (xs @ [x]) b) ?out"
    by (rule sorted_wrt_mono_rel [OF _ snoc]) (simp add: old)
  show ?case
  proof (cases "idf x \<in> idf ` set ?out")
    case True
    with keep show ?thesis by (simp add: removeDuplicates_snoc [OF assms])
  next
    case False
    then have "idf x \<notin> idf ` set xs" by (simp add: removeDuplicates_ids [OF assms])
    then have "first_index idf (xs @ [x]) x = length xs" by (rule first_index_new)
    with False keep show ?thesis
      by (simp add: removeDuplicates_snoc [OF assms] sorted_wrt_append old)
  qed
qed

text \<open>
  C2. For every list of messages, the result of \<open>removeDuplicates\<close> is no longer than
  the input, holds every identity of the input exactly once, keeps for each identity the
  first input message that has it, and lists the survivors in the order of those first
  occurrences. The identities are those of a function \<open>idf\<close> that never returns an
  array index or \<open>__proto__\<close>, the keys that an object does not keep in creation order.
\<close>

theorem removeDuplicates_keeps_first_occurrences:
  assumes "\<forall>m. plain_key (idf m)"
  shows "length (removeDuplicates idf ms) \<le> length ms
     \<and> set (map idf (removeDuplicates idf ms)) = set (map idf ms)
     \<and> distinct (map idf (removeDuplicates idf ms))
     \<and> (\<forall>m \<in> set (removeDuplicates idf ms). find (\<lambda>x. idf x = idf m) ms = Some m)
     \<and> sorted_wrt (\<lambda>a b. first_index idf ms a < first_index idf ms b) (removeDuplicates idf ms)"
  using removeDuplicates_length [OF assms] removeDuplicates_ids [OF assms]
    removeDuplicates_distinct [OF assms] removeDuplicates_first [OF assms]
    removeDuplicates_order [OF assms]
  by simp


theorem removeDuplicates_keeps_first_occurrences_witness:
  "(\<forall>m. plain_key (example_id m))
   \<and> length (removeDuplicates example_id
        [Message ''a'' None None, Message ''b'' None None, Message ''a'' None (Some ''d'')]) \<le> 3
   \<and> set (map example_id (removeDuplicates example_id
        [Message ''a'' None None, Message ''b'' None None, Message ''a'' None (Some ''d'')]))
       = {''$|a'', ''$|b''}
   \<and> distinct (map example_id (removeDuplicates example_id
        [Message ''a'' None None, Message ''b'' None None, Message ''a'' None (Some ''d'')]))"
proof -
  have h: "\<forall>m. plain_key (example_id m)"
    by (simp add: example_id_def plain_key_def array_index_def digit_char_def)
  have ids: "set (map example_id
        [Message ''a'' None None, Message ''b'' None None, Message ''a'' None (Some ''d'')])
       = {''$|a'', ''$|b''}"
    by (auto simp: example_id_def)
  note T = removeDuplicates_keeps_first_occurrences
         [OF h, of "[Message ''a'' None None, Message ''b'' None None, Message ''a'' None (Some ''d'')]"]
  from T have l: "length (removeDuplicates example_id
        [Message ''a'' None None, Message ''b'' None None, Message ''a'' None (Some ''d'')]) \<le> 3"
    by simp
  from T have "set (map example_id (removeDuplicates example_id
        [Message ''a'' None None, Message ''b'' None None, Message ''a'' None (Some ''d'')]))
       = set (map example_id
        [Message ''a'' None None, Message ''b'' None None, Message ''a'' None (Some ''d'')])"
    by blast
  with ids have s: "set (map example_id (removeDuplicates example_id
        [Message ''a'' None None, Message ''b'' None None, Message ''a'' None (Some ''d'')]))
       = {''$|a'', ''$|b''}"
    by (simp only:)
  from T have d: "distinct (map example_id (removeDuplicates example_id
        [Message ''a'' None None, Message ''b'' None None, Message ''a'' None (Some ''d'')]))"
    by blast
  show ?thesis by (intro conjI h l s d)
qed

text \<open>
  The condition on the identities is needed. With the content as identity, the array
  indices come first and in numeric order, and the key \<open>__proto__\<close> is not stored.
\<close>

lemma removeDuplicates_other_keys:
  "removeDuplicates content
     [Message ''2'' None None, Message ''1'' None None, Message ''__proto__'' None None]
   = [Message ''1'' None None, Message ''2'' None None]"
  by (simp add: removeDuplicates_def StringMapWrapper_values_def StringMapWrapper_contains_def
      js_assign_def own_keys_def array_index_def digit_char_def index_value_def)

section \<open>Properties of the attribute loops of one element\<close>

lemma i18n_attrs_forEach_char:
  "i18n_attrs_forEach C ic p as (this, ex) =
     (case first_rethrown C ic p as of
        Some x \<Rightarrow> Inl (ThrownOther x)
      | None \<Rightarrow> Inr (this\<lparr>this_messages := this_messages this @ built_messages C ic p as,
                          this_errors := this_errors this @ caught_errors C ic p as\<rparr>,
                     ex @ map base_name as))"
proof (induction as arbitrary: this ex)
  case Nil
  show ?case by (simp add: built_messages_def caught_errors_def)
next
  case (Cons a as)
  show ?case
  proof (cases "messageFromI18nAttribute C ic p a")
    case (Inr m)
    then show ?thesis
      by (simp add: Cons built_messages_def caught_errors_def base_name_def split: option.splits)
  next
    case (Inl e)
    then show ?thesis
      by (cases e) (simp_all add: Cons built_messages_def caught_errors_def base_name_def split: option.splits)
  qed
qed

lemma implicit_attrs_forEach_ok:
  "\<forall>a \<in> set as. \<exists>m. messageFromAttribute C ic a = Inr m \<Longrightarrow>
   implicit_attrs_forEach C ic as this =
     Inr (this\<lparr>this_messages := this_messages this @ implicit_messages C ic as\<rparr>)"
proof (induction as arbitrary: this)
  case Nil
  show ?case by (simp add: implicit_messages_def)
next
  case (Cons a as)
  then obtain m where m: "messageFromAttribute C ic a = Inr m" by auto
  with Cons show ?case by (simp add: implicit_messages_def)
qed

lemma implicit_attrs_forEach_Inr:
  "implicit_attrs_forEach C ic as this = Inr this' \<Longrightarrow>
   this' = this\<lparr>this_messages := this_messages this @ implicit_messages C ic as\<rparr>
   \<and> (\<forall>a \<in> set as. \<exists>m. messageFromAttribute C ic a = Inr m)"
proof (induction as arbitrary: this)
  case Nil
  then show ?case by (simp add: implicit_messages_def)
next
  case (Cons a as)
  show ?case
  proof (cases "messageFromAttribute C ic a")
    case (Inl e)
    with Cons.prems show ?thesis by simp
  next
    case (Inr m)
    with Cons.prems have "implicit_attrs_forEach C ic as (this\<lparr>this_messages := this_messages this @ [m]\<rparr>) = Inr this'"
      by simp
    from Cons.IH [OF this] Inr show ?thesis by (simp add: implicit_messages_def)
  qed
qed

lemma indexOf_filter_transAttrs:
  "indexOf_filter (transAttrs_value C name) (unclaimed explicitAttrs attrs) =
     (if raises_TypeError C name explicitAttrs attrs then Inl (ThrownOther ''TypeError'')
      else Inr (implicit_candidates (transAttrs_of C name) explicitAttrs attrs))"
proof (cases "transAttrs_value C name")
  case (StringArray as)
  then have "transAttrs_of C name = as"
    by (auto simp: transAttrs_value_def transAttrs_of_def table_get_def
        split: option.splits if_splits)
  with StringArray show ?thesis
    by (simp add: raises_TypeError_def implicit_candidates_def unclaimed_def)
next
  case NotAnArray
  then have "transAttrs_of C name = []"
    by (auto simp: transAttrs_value_def transAttrs_of_def table_get_def
        split: option.splits if_splits)
  with NotAnArray show ?thesis
    by (cases "unclaimed explicitAttrs attrs")
       (simp_all add: raises_TypeError_def implicit_candidates_def unclaimed_def)
qed

lemma extractMessagesFromAttributes_phases:
  "extractMessagesFromAttributes C ic (HtmlElementAst name attrs cs) this =
     (case i18n_attrs_forEach C ic (HtmlElementAst name attrs cs) (filter prefixed attrs) (this, []) of
        Inl e \<Rightarrow> Inl e
      | Inr (this', explicitAttrs) \<Rightarrow>
          (if raises_TypeError C name explicitAttrs attrs then Inl (ThrownOther ''TypeError'')
           else implicit_attrs_forEach C ic
                  (implicit_candidates (transAttrs_of C name) explicitAttrs attrs) this'))"
proof -
  have "extractMessagesFromAttributes C ic (HtmlElementAst name attrs cs) this =
     (case i18n_attrs_forEach C ic (HtmlElementAst name attrs cs) (filter prefixed attrs) (this, []) of
        Inl e \<Rightarrow> Inl e
      | Inr (this', explicitAttrs) \<Rightarrow>
          (case indexOf_filter (transAttrs_value C name) (unclaimed explicitAttrs attrs) of
             Inl e \<Rightarrow> Inl e
           | Inr candidates \<Rightarrow> implicit_attrs_forEach C ic candidates this'))"
    by (simp add: prefixed_def [abs_def] transAttrs_value_def unclaimed_def
        split: sum.splits prod.splits)
  then show ?thesis
    by (simp add: indexOf_filter_transAttrs split: sum.splits prod.splits)
qed

lemma extractMessagesFromAttributes_char:
  "extractMessagesFromAttributes C ic (HtmlElementAst name attrs cs) this =
     (case first_rethrown C ic (HtmlElementAst name attrs cs) (filter prefixed attrs) of
        Some x \<Rightarrow> Inl (ThrownOther x)
      | None \<Rightarrow>
          if raises_TypeError C name (map base_name (filter prefixed attrs)) attrs
          then Inl (ThrownOther ''TypeError'')
          else implicit_attrs_forEach C ic
            (implicit_candidates (transAttrs_of C name) (map base_name (filter prefixed attrs)) attrs)
            (this\<lparr>this_messages := this_messages this
                      @ built_messages C ic (HtmlElementAst name attrs cs) (filter prefixed attrs),
                  this_errors := this_errors this
                      @ caught_errors C ic (HtmlElementAst name attrs cs) (filter prefixed attrs)\<rparr>))"
  unfolding extractMessagesFromAttributes_phases i18n_attrs_forEach_char
  by (simp split: option.splits)

section \<open>Properties of the walks\<close>

lemma elements_forEach_append:
  "elements_forEach C ic (xs @ ys) this =
     (case elements_forEach C ic xs this of
        Inl e \<Rightarrow> Inl e
      | Inr this' \<Rightarrow> elements_forEach C ic ys this')"
  by (induction xs arbitrary: this) (auto split: sum.splits)

lemma walk_flatten:
  "recurseToExtractMessagesFromAttributes C ic ns this =
     elements_forEach C ic (descendant_elements ns) this"
  by (induction C ic ns this rule: recurseToExtractMessagesFromAttributes.induct)
     (auto simp: elements_forEach_append split: sum.splits)

lemma subnodes_Cons: "subnodes ns \<subseteq> subnodes (n # ns)"
proof
  fix x assume "x \<in> subnodes ns"
  then show "x \<in> subnodes (n # ns)"
    by (induction rule: subnodes.induct) (auto intro: subnodes.intros)
qed

lemma subnodes_children: "subnodes cs \<subseteq> subnodes (HtmlElementAst name attrs cs # ns)"
proof
  fix x assume "x \<in> subnodes cs"
  then show "x \<in> subnodes (HtmlElementAst name attrs cs # ns)"
  proof (induction rule: subnodes.induct)
    case (sibling n)
    have "HtmlElementAst name attrs cs \<in> subnodes (HtmlElementAst name attrs cs # ns)"
      by (rule subnodes.sibling) simp
    then show ?case using sibling by (rule subnodes.child)
  next
    case (child name' attrs' cs' c)
    then show ?case by (auto intro: subnodes.child)
  qed
qed

lemma descendant_elements_sound:
  "x \<in> set (descendant_elements ns) \<Longrightarrow> x \<in> subnodes ns \<and> is_element x"
proof (induction ns arbitrary: x rule: descendant_elements.induct)
  case 1
  then show ?case by simp
next
  case (2 name attrs cs ns)
  from "2.prems" consider "x = HtmlElementAst name attrs cs"
    | "x \<in> set (descendant_elements cs)" | "x \<in> set (descendant_elements ns)"
    by auto
  then show ?case
  proof cases
    case 1
    then show ?thesis by (simp add: subnodes.sibling)
  next
    case 2
    with "2.IH"(1) subnodes_children show ?thesis by blast
  next
    case 3
    with "2.IH"(2) subnodes_Cons show ?thesis by blast
  qed
qed (use subnodes_Cons in \<open>auto\<close>)

lemma descendant_elements_siblings:
  "n \<in> set ns \<Longrightarrow> is_element n \<Longrightarrow> n \<in> set (descendant_elements ns)"
  by (induction ns rule: descendant_elements.induct) auto

lemma descendant_elements_children:
  "HtmlElementAst name attrs cs \<in> set (descendant_elements ns) \<Longrightarrow>
   set (descendant_elements cs) \<subseteq> set (descendant_elements ns)"
  by (induction ns rule: descendant_elements.induct) auto

lemma descendant_elements_complete:
  "x \<in> subnodes ns \<Longrightarrow> is_element x \<Longrightarrow> x \<in> set (descendant_elements ns)"
proof (induction rule: subnodes.induct)
  case (sibling n)
  then show ?case by (rule descendant_elements_siblings)
next
  case (child name attrs cs c)
  have "HtmlElementAst name attrs cs \<in> set (descendant_elements ns)"
    by (rule child.IH) simp
  then have "set (descendant_elements cs) \<subseteq> set (descendant_elements ns)"
    by (rule descendant_elements_children)
  moreover have "c \<in> set (descendant_elements cs)"
    using child.hyps(2) child.prems by (rule descendant_elements_siblings)
  ultimately show ?case by blast
qed

lemma set_descendant_elements:
  "set (descendant_elements ns) = {x \<in> subnodes ns. is_element x}"
  using descendant_elements_sound descendant_elements_complete by blast

declare extractMessagesFromPart.simps [simp del]

lemma fuel_mono:
  "recurse n C ic nodes this = Some r \<Longrightarrow> recurse (n + k) C ic nodes this = Some r"
  "parts_forEach n C ic ps this = Some r \<Longrightarrow> parts_forEach (n + k) C ic ps this = Some r"
  "extractMessagesFromPart n C ic part this = Some r \<Longrightarrow>
     extractMessagesFromPart (n + k) C ic part this = Some r"
proof (induction n C ic nodes this and n C ic ps this and n C ic part this
       arbitrary: r and r and r
       rule: recurse_parts_forEach_extractMessagesFromPart.induct)
  case (1 fuel C ic this)
  then show ?case by simp
next
  case (2 C ic nodes this)
  then show ?case by simp
next
  case (3 fuel C ic nodes this)
  show ?case
  proof (cases "partition C nodes (implicitTags C)")
    case (Inl e)
    with "3.prems" show ?thesis by simp
  next
    case (Inr b)
    obtain parts errs where b: "b = (parts, errs)" by (cases b)
    with Inr "3.prems"
    have "parts_forEach fuel C ic parts (this\<lparr>this_errors := this_errors this @ errs\<rparr>) = Some r"
      by simp
    with "3.IH" [OF Inr b [symmetric]] Inr b show ?thesis by simp
  qed
next
  case (4 fuel C ic this)
  then show ?case by simp
next
  case (5 fuel C ic part parts this)
  from "5.prems" obtain x where x: "extractMessagesFromPart fuel C ic part this = Some x"
    by (cases "extractMessagesFromPart fuel C ic part this") auto
  then have x': "extractMessagesFromPart (fuel + k) C ic part this = Some x"
    by (rule "5.IH"(1))
  show ?case
  proof (cases x)
    case (Inl e)
    with x "5.prems" have "r = Inl e" by simp
    with x' Inl show ?thesis by simp
  next
    case (Inr this')
    with x "5.prems" have "parts_forEach fuel C ic parts this' = Some r" by simp
    then have "parts_forEach (fuel + k) C ic parts this' = Some r"
      by (rule "5.IH"(2) [OF x Inr])
    with x' Inr show ?thesis by simp
  qed
next
  case (6 fuel C ic part this)
  show ?case
  proof (cases "hasI18n part")
    case True
    with "6.prems" show ?thesis by (simp add: extractMessagesFromPart.simps)
  next
    case False
    from False "6.prems" obtain x where x: "recurse fuel C ic (children part) this = Some x"
      by (cases "recurse fuel C ic (children part) this") (auto simp: extractMessagesFromPart.simps)
    then have "recurse (fuel + k) C ic (children part) this = Some x"
      by (rule "6.IH" [OF False])
    with x False "6.prems" show ?thesis by (simp add: extractMessagesFromPart.simps)
  qed
qed

section \<open>Properties of extract\<close>

lemmas example_simps =
  example_collaborators_def example_parse_def example_document_def example_partition_def
  example_createMessage_def example_messageFromAttribute_def example_ic_def marker_value_def
  base_name_def prefixed_def I18N_ATTR_PREFIX_def startsWith_def substring_def transAttrs_of_def
  table_get_def object_prototype_names_def partition_spec_def scenario_opens_def
  scenario_closes_def

lemma reset_fields:
  "(this0 :: MessageExtractor)\<lparr>this_messages := [], this_errors := []\<rparr>
     = \<lparr>this_messages = [], this_errors = []\<rparr>"
  by (cases this0) simp

lemma extract_template_fuel_mono:
  assumes "extract_template n C t u ic this0 = Some r"
  shows "extract_template (n + k) C t u ic this0 = Some r"
proof (cases "htmlParser_parse C t u True")
  case (Inl e)
  with assms show ?thesis by (simp add: extract_template_def)
next
  case (Inr res)
  show ?thesis
  proof (cases "length (parse_errors res) = 0")
    case False
    with Inr assms show ?thesis by (simp add: extract_template_def)
  next
    case True
    let ?start = "\<lparr>this_messages = [], this_errors = []\<rparr>"
    from True Inr assms obtain x where x: "recurse n C ic (Some (rootNodes res)) ?start = Some x"
      by (cases "recurse n C ic (Some (rootNodes res)) ?start")
         (auto simp: extract_template_def reset_fields)
    then have "recurse (n + k) C ic (Some (rootNodes res)) ?start = Some x"
      by (rule fuel_mono(1))
    with x True Inr assms show ?thesis
      by (simp add: extract_template_def reset_fields)
  qed
qed

lemma extract_template_state:
  "extract_template n C t u ic this1 = extract_template n C t u ic this2"
  by (simp add: extract_template_def reset_fields)

text \<open>
  The accumulators of a call are the fields of the instance: after a call that returns,
  the instance holds the messages of the result and the errors of the walk.
\<close>

lemma extract_template_fields:
  assumes "extract_template fuel C template sourceUrl ic this0 = Some (Inr (res, this'))"
  shows "this_messages this' = messages res"
    and "\<exists>res0. htmlParser_parse C template sourceUrl True = Inr res0
           \<and> errors res = this_errors this' @ parse_errors res0"
proof -
  from assms obtain res0 where p: "htmlParser_parse C template sourceUrl True = Inr res0"
    by (cases "htmlParser_parse C template sourceUrl True") (auto simp: extract_template_def)
  with assms have "this_messages this' = messages res \<and> errors res = this_errors this' @ parse_errors res0"
    by (auto simp: extract_template_def reset_fields Let_def split: sum.splits option.splits if_splits)
  with p show "this_messages this' = messages res"
    and "\<exists>res0. htmlParser_parse C template sourceUrl True = Inr res0
           \<and> errors res = this_errors this' @ parse_errors res0"
    by auto
qed

text \<open>
  C1. When the markup parser reports at least one error, \<open>extract\<close> returns a result
  with no messages and exactly the errors of the parser. It does so with no fuel at all
  and whatever the collaborators of the walk are: no walk takes place.
\<close>

theorem extract_short_circuit:
  assumes "htmlParser_parse C template sourceUrl True = Inr res"
    and "parse_errors res \<noteq> []"
  shows "extract_template fuel C template sourceUrl ic this0
           = Some (Inr (ExtractionResult [] (parse_errors res),
                        \<lparr>this_messages = [], this_errors = []\<rparr>))
       \<and> extract_template 0
             (C\<lparr>partition := pt, createMessage := cm, messageFromI18nAttribute := mi,
                 messageFromAttribute := ma\<rparr>)
             template sourceUrl ic this0
           = Some (Inr (ExtractionResult [] (parse_errors res),
                        \<lparr>this_messages = [], this_errors = []\<rparr>))"
  using assms by (simp add: extract_template_def reset_fields)

theorem extract_short_circuit_witness:
  "htmlParser_parse example_collaborators ''<'' ''a.html'' True
     = Inr (HtmlParseTreeResult [] [ParseError ''Unexpected end of input''])
   \<and> parse_errors (HtmlParseTreeResult [] [ParseError ''Unexpected end of input'']) \<noteq> []
   \<and> extract_template 0 example_collaborators ''<'' ''a.html'' example_ic
         \<lparr>this_messages = [Message ''old'' None None], this_errors = []\<rparr>
       = Some (Inr (ExtractionResult [] [ParseError ''Unexpected end of input''],
                    \<lparr>this_messages = [], this_errors = []\<rparr>))"
proof -
  have p: "htmlParser_parse example_collaborators ''<'' ''a.html'' True
     = Inr (HtmlParseTreeResult [] [ParseError ''Unexpected end of input''])"
    by (simp add: example_collaborators_def example_parse_def)
  have e: "parse_errors (HtmlParseTreeResult [] [ParseError ''Unexpected end of input'']) \<noteq> []"
    by simp
  from extract_short_circuit [OF p e, THEN conjunct1, of 0 example_ic
         "\<lparr>this_messages = [Message ''old'' None None], this_errors = []\<rparr>"] p e
  show ?thesis by simp
qed

text \<open>
  C4. \<open>extract\<close> is deterministic. An invocation that returns a result returns the same
  result, and leaves the same fields, when it is invoked again on the same template, source
  URL and interpolation configuration, whatever the fields of the instance hold at that
  time and however much more fuel it is given; the messages of any two such invocations
  agree in content, meaning and identity, in the same order.
\<close>

theorem extract_deterministic:
  assumes "extract_template n C template sourceUrl ic this1 = Some (Inr (res1, after1))"
  shows "extract_template (n + k) C template sourceUrl ic this2 = Some (Inr (res1, after1))
       \<and> (extract_template m C template sourceUrl ic this2 = Some (Inr (res2, after2)) \<longrightarrow>
            triples idf res2 = triples idf res1)"
proof -
  have later: "extract_template (n + j) C template sourceUrl ic this2 = Some (Inr (res1, after1))"
    for j
    using extract_template_fuel_mono [OF assms, of j]
    by (simp add: extract_template_state [of _ _ _ _ _ this1 this2])
  have "triples idf res2 = triples idf res1"
    if "extract_template m C template sourceUrl ic this2 = Some (Inr (res2, after2))"
  proof -
    from that have "extract_template (m + n) C template sourceUrl ic this2 = Some (Inr (res2, after2))"
      by (rule extract_template_fuel_mono)
    with later [of m] show ?thesis by (simp add: add.commute)
  qed
  with later [of k] show ?thesis by blast
qed

theorem extract_deterministic_witness:
  "extract_template 2 example_collaborators ''doc'' ''a.html'' example_ic
       \<lparr>this_messages = [], this_errors = []\<rparr>
     = Some (Inr (ExtractionResult
          [Message ''hello<ph/>'' (Some ''greeting'') None, Message ''T'' (Some ''tm'') (Some []),
           Message ''P'' None None]
          [I18nError ''Missing attribute alt''],
        \<lparr>this_messages =
           [Message ''hello<ph/>'' (Some ''greeting'') None, Message ''T'' (Some ''tm'') (Some []),
            Message ''P'' None None],
         this_errors = [I18nError ''Missing attribute alt'']\<rparr>))
   \<and> extract_template (2 + 1) example_collaborators ''doc'' ''a.html'' example_ic
       \<lparr>this_messages =
           [Message ''hello<ph/>'' (Some ''greeting'') None, Message ''T'' (Some ''tm'') (Some []),
            Message ''P'' None None],
         this_errors = [I18nError ''Missing attribute alt'']\<rparr>
     = Some (Inr (ExtractionResult
          [Message ''hello<ph/>'' (Some ''greeting'') None, Message ''T'' (Some ''tm'') (Some []),
           Message ''P'' None None]
          [I18nError ''Missing attribute alt''],
        \<lparr>this_messages =
           [Message ''hello<ph/>'' (Some ''greeting'') None, Message ''T'' (Some ''tm'') (Some []),
            Message ''P'' None None],
         this_errors = [I18nError ''Missing attribute alt'']\<rparr>))"
proof -
  have run: "extract_template 2 example_collaborators ''doc'' ''a.html'' example_ic
       \<lparr>this_messages = [], this_errors = []\<rparr>
     = Some (Inr (ExtractionResult
          [Message ''hello<ph/>'' (Some ''greeting'') None, Message ''T'' (Some ''tm'') (Some []),
           Message ''P'' None None]
          [I18nError ''Missing attribute alt''],
        \<lparr>this_messages =
           [Message ''hello<ph/>'' (Some ''greeting'') None, Message ''T'' (Some ''tm'') (Some []),
            Message ''P'' None None],
         this_errors = [I18nError ''Missing attribute alt'']\<rparr>))"
    by (simp add: example_simps extract_template_def extractMessagesFromPart.simps numeral_2_eq_2)
  from extract_deterministic [OF run, THEN conjunct1] run show ?thesis by (intro conjI)
qed

section \<open>Properties of the walk over a translatable part\<close>

lemma extractMessagesFromAttributes_Inr:
  assumes "extractMessagesFromAttributes C ic p this = Inr this'"
  shows "this' = this\<lparr>this_messages := this_messages this @ element_messages C ic p,
                       this_errors := this_errors this @ element_errors C ic p\<rparr>"
proof (cases p)
  case (HtmlElementAst name attrs cs)
  let ?pre = "filter prefixed attrs"
  from assms have none: "first_rethrown C ic p ?pre = None"
    unfolding HtmlElementAst extractMessagesFromAttributes_char
    by (simp split: option.splits)
  with assms have "implicit_attrs_forEach C ic
      (implicit_candidates (transAttrs_of C name) (map base_name ?pre) attrs)
      (this\<lparr>this_messages := this_messages this @ built_messages C ic p ?pre,
            this_errors := this_errors this @ caught_errors C ic p ?pre\<rparr>) = Inr this'"
    unfolding HtmlElementAst extractMessagesFromAttributes_char by (simp split: if_splits)
  from implicit_attrs_forEach_Inr [OF this] show ?thesis
    by (simp add: HtmlElementAst)
qed (use assms in simp_all)

lemma elements_forEach_Inr:
  "elements_forEach C ic es this = Inr this' \<Longrightarrow>
   this' = this\<lparr>this_messages := this_messages this @ concat (map (element_messages C ic) es),
                 this_errors := this_errors this @ concat (map (element_errors C ic) es)\<rparr>"
proof (induction es arbitrary: this)
  case Nil
  then show ?case by simp
next
  case (Cons p es)
  from Cons.prems obtain this1 where
    1: "extractMessagesFromAttributes C ic p this = Inr this1" and
    2: "elements_forEach C ic es this1 = Inr this'"
    by (cases "extractMessagesFromAttributes C ic p this") auto
  from Cons.IH [OF 2] extractMessagesFromAttributes_Inr [OF 1] show ?case by simp
qed

lemma translatable_part:
  assumes "hasI18n part" "children part = Some nodes" "createMessage C part ic = Inr m"
  shows "extractMessagesFromPart fuel C ic part this =
     Some (case recurseToExtractMessagesFromAttributes C ic nodes
                  (this\<lparr>this_messages := this_messages this @ [m]\<rparr>) of
             Inl e \<Rightarrow> Inl e
           | Inr this' \<Rightarrow>
               (case rootElement part of
                  Some p \<Rightarrow> extractMessagesFromAttributes C ic p this'
                | None \<Rightarrow> Inr this'))"
  using assms by (simp add: extractMessagesFromPart.simps split: sum.splits option.splits)

lemma untranslated_part:
  assumes "\<not> hasI18n part"
  shows "extractMessagesFromPart fuel C ic part this =
     (case recurse fuel C ic (children part) this of
        None \<Rightarrow> None
      | Some (Inl e) \<Rightarrow> Some (Inl e)
      | Some (Inr this') \<Rightarrow>
          (case rootElement part of
             Some p \<Rightarrow> Some (extractMessagesFromAttributes C ic p this')
           | None \<Rightarrow> Some (Inr this')))"
  using assms by (simp add: extractMessagesFromPart.simps)

text \<open>
  C7. The attribute walk visits every element among the nodes it is given and every
  element below them: its list of visited elements is exactly the set of elements among
  the nodes below the sibling list, the walk is \<open>_extractMessagesFromAttributes\<close> on
  each of them in document order, and when it returns, the messages it has added are those
  of the attributes of each of them. For a part to be translated, the walk runs on the
  children of the part, after the message of the part and before the root element.
\<close>

theorem attribute_walk_visits_descendant_elements:
  "set (descendant_elements nodes) = {x \<in> subnodes nodes. is_element x}
   \<and> recurseToExtractMessagesFromAttributes C ic nodes this
       = elements_forEach C ic (descendant_elements nodes) this
   \<and> (recurseToExtractMessagesFromAttributes C ic nodes this = Inr this' \<longrightarrow>
        this_messages this'
          = this_messages this @ concat (map (element_messages C ic) (descendant_elements nodes)))
   \<and> (hasI18n part \<and> children part = Some nodes \<and> createMessage C part ic = Inr m \<longrightarrow>
        extractMessagesFromPart fuel C ic part this =
          Some (case elements_forEach C ic (descendant_elements nodes)
                       (this\<lparr>this_messages := this_messages this @ [m]\<rparr>) of
                  Inl e \<Rightarrow> Inl e
                | Inr this'' \<Rightarrow>
                    (case rootElement part of
                       Some p \<Rightarrow> extractMessagesFromAttributes C ic p this''
                     | None \<Rightarrow> Inr this'')))"
proof (intro conjI impI)
  show "set (descendant_elements nodes) = {x \<in> subnodes nodes. is_element x}"
    by (rule set_descendant_elements)
  show "recurseToExtractMessagesFromAttributes C ic nodes this
       = elements_forEach C ic (descendant_elements nodes) this"
    by (rule walk_flatten)
next
  assume "recurseToExtractMessagesFromAttributes C ic nodes this = Inr this'"
  then have "elements_forEach C ic (descendant_elements nodes) this = Inr this'"
    by (simp add: walk_flatten)
  from elements_forEach_Inr [OF this]
  show "this_messages this'
          = this_messages this @ concat (map (element_messages C ic) (descendant_elements nodes))"
    by simp
next
  assume "hasI18n part \<and> children part = Some nodes \<and> createMessage C part ic = Inr m"
  then show "extractMessagesFromPart fuel C ic part this =
          Some (case elements_forEach C ic (descendant_elements nodes)
                       (this\<lparr>this_messages := this_messages this @ [m]\<rparr>) of
                  Inl e \<Rightarrow> Inl e
                | Inr this'' \<Rightarrow>
                    (case rootElement part of
                       Some p \<Rightarrow> extractMessagesFromAttributes C ic p this''
                     | None \<Rightarrow> Inr this''))"
    by (simp add: translatable_part walk_flatten)
qed

theorem attribute_walk_visits_descendant_elements_witness:
  "descendant_elements
     [HtmlTextAst ''x'',
      HtmlElementAst ''ul'' []
        [HtmlElementAst ''li'' [] [HtmlElementAst ''b'' [HtmlAttrAst ''title'' ''T''] []]]]
     = [HtmlElementAst ''ul'' []
          [HtmlElementAst ''li'' [] [HtmlElementAst ''b'' [HtmlAttrAst ''title'' ''T''] []]],
        HtmlElementAst ''li'' [] [HtmlElementAst ''b'' [HtmlAttrAst ''title'' ''T''] []],
        HtmlElementAst ''b'' [HtmlAttrAst ''title'' ''T''] []]
   \<and> recurseToExtractMessagesFromAttributes example_collaborators example_ic
       [HtmlTextAst ''x'',
        HtmlElementAst ''ul'' []
          [HtmlElementAst ''li'' [] [HtmlElementAst ''b'' [HtmlAttrAst ''title'' ''T''] []]]]
       \<lparr>this_messages = [], this_errors = []\<rparr>
     = Inr \<lparr>this_messages = [Message ''T'' None None], this_errors = []\<rparr>"
proof -
  let ?nodes = "[HtmlTextAst ''x'',
      HtmlElementAst ''ul'' []
        [HtmlElementAst ''li'' [] [HtmlElementAst ''b'' [HtmlAttrAst ''title'' ''T''] []]]]"
  have d: "descendant_elements ?nodes
     = [HtmlElementAst ''ul'' []
          [HtmlElementAst ''li'' [] [HtmlElementAst ''b'' [HtmlAttrAst ''title'' ''T''] []]],
        HtmlElementAst ''li'' [] [HtmlElementAst ''b'' [HtmlAttrAst ''title'' ''T''] []],
        HtmlElementAst ''b'' [HtmlAttrAst ''title'' ''T''] []]"
    by simp
  have "recurseToExtractMessagesFromAttributes example_collaborators example_ic ?nodes
          \<lparr>this_messages = [], this_errors = []\<rparr>
        = elements_forEach example_collaborators example_ic (descendant_elements ?nodes)
            \<lparr>this_messages = [], this_errors = []\<rparr>"
    using attribute_walk_visits_descendant_elements
      [of ?nodes example_collaborators example_ic "\<lparr>this_messages = [], this_errors = []\<rparr>"]
    by blast
  also have "\<dots> = Inr \<lparr>this_messages = [Message ''T'' None None], this_errors = []\<rparr>"
    unfolding d by (simp add: example_simps)
  finally show ?thesis using d by simp
qed

text \<open>
  C9. When a part has a root element, the attributes of that element are inspected
  once the children of the part are done, whether the part is translated or not. So the
  prefixed and the implicit attributes of an element outside any translatable region
  yield their messages.
\<close>

theorem root_element_attributes_inspected:
  assumes "rootElement part = Some p"
  shows "(hasI18n part \<longrightarrow> createMessage C part ic = Inr m \<longrightarrow> children part = Some nodes \<longrightarrow>
            recurseToExtractMessagesFromAttributes C ic nodes
              (this\<lparr>this_messages := this_messages this @ [m]\<rparr>) = Inr this1 \<longrightarrow>
            extractMessagesFromPart fuel C ic part this
              = Some (extractMessagesFromAttributes C ic p this1))
       \<and> (\<not> hasI18n part \<longrightarrow> recurse fuel C ic (children part) this = Some (Inr this1) \<longrightarrow>
            extractMessagesFromPart fuel C ic part this
              = Some (extractMessagesFromAttributes C ic p this1))
       \<and> (\<not> hasI18n part \<longrightarrow> recurse fuel C ic (children part) this = Some (Inr this1) \<longrightarrow>
            extractMessagesFromAttributes C ic p this1 = Inr this2 \<longrightarrow>
            extractMessagesFromPart fuel C ic part this = Some (Inr this2)
            \<and> this_messages this2 = this_messages this1 @ element_messages C ic p)"
proof (intro conjI impI)
  assume "hasI18n part" "createMessage C part ic = Inr m" "children part = Some nodes"
    "recurseToExtractMessagesFromAttributes C ic nodes
              (this\<lparr>this_messages := this_messages this @ [m]\<rparr>) = Inr this1"
  with assms show "extractMessagesFromPart fuel C ic part this
              = Some (extractMessagesFromAttributes C ic p this1)"
    by (simp add: translatable_part)
next
  assume "\<not> hasI18n part" "recurse fuel C ic (children part) this = Some (Inr this1)"
  with assms show "extractMessagesFromPart fuel C ic part this
              = Some (extractMessagesFromAttributes C ic p this1)"
    by (simp add: untranslated_part)
next
  assume a: "\<not> hasI18n part" "recurse fuel C ic (children part) this = Some (Inr this1)"
    "extractMessagesFromAttributes C ic p this1 = Inr this2"
  with assms show "extractMessagesFromPart fuel C ic part this = Some (Inr this2)"
    by (simp add: untranslated_part)
  from extractMessagesFromAttributes_Inr [OF a(3)]
  show "this_messages this2 = this_messages this1 @ element_messages C ic p"
    by simp
qed

theorem root_element_attributes_inspected_witness:
  "rootElement (Part (Some (HtmlElementAst ''p'' [HtmlAttrAst ''title'' ''P''] [])) None (Some []) None False)
     = Some (HtmlElementAst ''p'' [HtmlAttrAst ''title'' ''P''] [])
   \<and> recurse 1 example_collaborators example_ic (Some [])
         \<lparr>this_messages = [], this_errors = []\<rparr>
       = Some (Inr \<lparr>this_messages = [], this_errors = []\<rparr>)
   \<and> extractMessagesFromPart 1 example_collaborators example_ic
       (Part (Some (HtmlElementAst ''p'' [HtmlAttrAst ''title'' ''P''] [])) None (Some []) None False)
       \<lparr>this_messages = [], this_errors = []\<rparr>
     = Some (Inr \<lparr>this_messages = [Message ''P'' None None], this_errors = []\<rparr>)"
proof -
  let ?p = "HtmlElementAst ''p'' [HtmlAttrAst ''title'' ''P''] []"
  let ?part = "Part (Some ?p) None (Some []) None False"
  have r: "rootElement ?part = Some ?p" by simp
  have c: "recurse 1 example_collaborators example_ic (Some [])
         \<lparr>this_messages = [], this_errors = []\<rparr>
       = Some (Inr \<lparr>this_messages = [], this_errors = []\<rparr>)"
    by (simp add: example_simps)
  have a: "extractMessagesFromAttributes example_collaborators example_ic ?p
         \<lparr>this_messages = [], this_errors = []\<rparr>
       = Inr \<lparr>this_messages = [Message ''P'' None None], this_errors = []\<rparr>"
    by (simp add: example_simps)
  from root_element_attributes_inspected [OF r, of example_collaborators example_ic _ _
      "\<lparr>this_messages = [], this_errors = []\<rparr>" "\<lparr>this_messages = [], this_errors = []\<rparr>" 1]
    c
  have "extractMessagesFromPart 1 example_collaborators example_ic ?part
       \<lparr>this_messages = [], this_errors = []\<rparr>
     = Some (extractMessagesFromAttributes example_collaborators example_ic ?p
         \<lparr>this_messages = [], this_errors = []\<rparr>)"
    by simp
  with r c a show ?thesis by simp
qed

section \<open>Properties of the attribute selection\<close>

lemma implicit_candidates_selected:
  "implicit_candidates (transAttrs_of C name) (map base_name (filter prefixed attrs)) attrs
     = filter (selected_implicit C name attrs) attrs"
proof -
  have "attr_name x \<notin> set (map base_name (filter prefixed attrs))
          \<longleftrightarrow> \<not> (\<exists>b \<in> set attrs. prefixed b \<and> base_name b = attr_name x)" for x
    by (auto simp: image_iff)
  then show ?thesis
    unfolding implicit_candidates_def filter_filter
    by (intro filter_cong refl) (auto simp: selected_implicit_def prefixed_def)
qed

lemma caught_errors_mem:
  "a \<in> set as \<Longrightarrow> messageFromI18nAttribute C ic p a = Inl (ThrownI18nError e) \<Longrightarrow>
   I18nError e \<in> set (caught_errors C ic p as)"
  by (auto simp: caught_errors_def intro!: bexI [of _ a])

lemma built_messages_mem:
  "a \<in> set as \<Longrightarrow> messageFromI18nAttribute C ic p a = Inr m \<Longrightarrow>
   m \<in> set (built_messages C ic p as)"
  by (auto simp: built_messages_def intro!: bexI [of _ a])

lemma first_rethrown_mem:
  "a \<in> set as \<Longrightarrow> messageFromI18nAttribute C ic p a = Inl (ThrownOther x) \<Longrightarrow>
   \<exists>y. first_rethrown C ic p as = Some y"
  by (induction as) (auto split: sum.splits exn.splits)

lemma extractMessagesFromAttributes_completes:
  assumes "element_completes C ic p"
  shows "extractMessagesFromAttributes C ic p this =
     Inr (this\<lparr>this_messages := this_messages this @ element_messages C ic p,
               this_errors := this_errors this @ element_errors C ic p\<rparr>)"
proof (cases p)
  case (HtmlElementAst name attrs cs)
  let ?cand = "implicit_candidates (transAttrs_of C name) (map base_name (filter prefixed attrs)) attrs"
  from assms have none: "first_rethrown C ic p (filter prefixed attrs) = None"
    and no_type_error: "\<not> raises_TypeError C name (map base_name (filter prefixed attrs)) attrs"
    and all: "list_all (\<lambda>a. case messageFromAttribute C ic a of Inr m \<Rightarrow> True | Inl e \<Rightarrow> False) ?cand"
    by (simp_all add: HtmlElementAst)
  have "\<exists>m. messageFromAttribute C ic a = Inr m" if "a \<in> set ?cand" for a
    using all that by (cases "messageFromAttribute C ic a") (auto simp: list_all_iff)
  then have "\<forall>a \<in> set ?cand. \<exists>m. messageFromAttribute C ic a = Inr m" by blast
  from implicit_attrs_forEach_ok [OF this] none no_type_error show ?thesis
    unfolding HtmlElementAst extractMessagesFromAttributes_char by simp
qed (use assms in simp_all)

lemma elements_forEach_completes:
  "\<forall>p \<in> set es. element_completes C ic p \<Longrightarrow>
   elements_forEach C ic es this =
     Inr (this\<lparr>this_messages := this_messages this @ concat (map (element_messages C ic) es),
               this_errors := this_errors this @ concat (map (element_errors C ic) es)\<rparr>)"
  by (induction es arbitrary: this) (simp_all add: extractMessagesFromAttributes_completes)

lemma implicit_attrs_forEach_throws:
  "\<forall>b \<in> set before. \<exists>m. messageFromAttribute C ic b = Inr m \<Longrightarrow>
   messageFromAttribute C ic a = Inl ex \<Longrightarrow>
   implicit_attrs_forEach C ic (before @ a # rest) this = Inl ex"
  by (induction before arbitrary: this) auto

lemma parts_forEach_append:
  "parts_forEach fuel C ic (ps @ qs) this =
     (case parts_forEach fuel C ic ps this of
        None \<Rightarrow> None
      | Some (Inl e) \<Rightarrow> Some (Inl e)
      | Some (Inr this') \<Rightarrow> parts_forEach fuel C ic qs this')"
  by (induction ps arbitrary: this) (auto split: option.splits sum.splits)

lemma built_messages_attribute_messages:
  "\<forall>a \<in> set as. prefixed a \<Longrightarrow>
   built_messages C ic (HtmlElementAst name attrs cs) as
     = concat (map (attribute_messages C ic name attrs cs) as)"
  by (induction as) (auto simp: built_messages_def attribute_messages_def)

lemma implicit_messages_attribute_messages:
  "implicit_messages C ic (filter (selected_implicit C name attrs) as)
     = concat (map (attribute_messages C ic name attrs cs) (filter (\<lambda>a. \<not> prefixed a) as))"
  by (induction as) (auto simp: implicit_messages_def attribute_messages_def selected_implicit_def)

text \<open>
  C5, as amended. On an element whose attributes \<open>_extractMessagesFromAttributes\<close>
  processes to the end, the messages added are those that the attributes yield, the
  prefixed attributes first and the others after them, each in the order of the
  attributes. An attribute yields at most one message, and it yields one exactly when it
  has the i18n prefix and the builder returns a message for it, or when it has no prefix,
  no prefixed attribute of the element claims its name and its name is in the implicit
  table of the tag. A prefixed attribute for which the builder raises an I18nError yields
  no message. On an element with exactly one attribute i18n-title, for which the builder
  returns a message, the attributes i18n-title and title together yield that message and
  no other.
\<close>

theorem attribute_selection_policy:
  assumes "extractMessagesFromAttributes C ic (HtmlElementAst name attrs cs) this = Inr this'"
  shows "this_messages this'
           = this_messages this
             @ concat (map (attribute_messages C ic name attrs cs) (filter prefixed attrs))
             @ concat (map (attribute_messages C ic name attrs cs) (filter (\<lambda>a. \<not> prefixed a) attrs))
       \<and> (\<forall>a \<in> set attrs.
            length (attribute_messages C ic name attrs cs a) \<le> 1
            \<and> (attribute_messages C ic name attrs cs a \<noteq> [] \<longleftrightarrow>
                 prefixed a \<and> (\<exists>m. messageFromI18nAttribute C ic (HtmlElementAst name attrs cs) a = Inr m)
                 \<or> selected_implicit C name attrs a))
       \<and> (filter (\<lambda>a. attr_name a = ''i18n-title'') attrs = [i]
            \<and> messageFromI18nAttribute C ic (HtmlElementAst name attrs cs) i = Inr m \<longrightarrow>
            concat (map (attribute_messages C ic name attrs cs)
                      (filter (\<lambda>a. attr_name a = ''i18n-title'' \<or> attr_name a = ''title'') attrs))
              = [m])"
proof (intro conjI ballI impI)
  let ?p = "HtmlElementAst name attrs cs"
  let ?pre = "filter prefixed attrs"
  let ?sel = "filter (selected_implicit C name attrs) attrs"
  let ?y = "attribute_messages C ic name attrs cs"
  from assms have none: "first_rethrown C ic ?p ?pre = None"
    unfolding extractMessagesFromAttributes_char by (simp split: option.splits)
  with assms have run: "implicit_attrs_forEach C ic ?sel
      (this\<lparr>this_messages := this_messages this @ built_messages C ic ?p ?pre,
            this_errors := this_errors this @ caught_errors C ic ?p ?pre\<rparr>) = Inr this'"
    unfolding extractMessagesFromAttributes_char implicit_candidates_selected
    by (simp split: if_splits)
  from implicit_attrs_forEach_Inr [OF run]
  have msgs: "this_messages this'
      = this_messages this @ built_messages C ic ?p ?pre @ implicit_messages C ic ?sel"
    and returns: "\<forall>a \<in> set ?sel. \<exists>m. messageFromAttribute C ic a = Inr m"
    by simp_all
  have "built_messages C ic ?p ?pre = concat (map ?y ?pre)"
    by (rule built_messages_attribute_messages) simp
  with msgs show "this_messages this'
           = this_messages this @ concat (map ?y ?pre) @ concat (map ?y (filter (\<lambda>a. \<not> prefixed a) attrs))"
    by (simp add: implicit_messages_attribute_messages [of C ic name attrs attrs cs])
next
  fix a assume "a \<in> set attrs"
  show "length (attribute_messages C ic name attrs cs a) \<le> 1"
    by (simp add: attribute_messages_def split: sum.splits)
next
  let ?p = "HtmlElementAst name attrs cs"
  let ?pre = "filter prefixed attrs"
  let ?sel = "filter (selected_implicit C name attrs) attrs"
  fix a assume a: "a \<in> set attrs"
  from assms have none: "first_rethrown C ic ?p ?pre = None"
    unfolding extractMessagesFromAttributes_char by (simp split: option.splits)
  with assms have run: "implicit_attrs_forEach C ic ?sel
      (this\<lparr>this_messages := this_messages this @ built_messages C ic ?p ?pre,
            this_errors := this_errors this @ caught_errors C ic ?p ?pre\<rparr>) = Inr this'"
    unfolding extractMessagesFromAttributes_char implicit_candidates_selected
    by (simp split: if_splits)
  from implicit_attrs_forEach_Inr [OF run] a
  have returns: "selected_implicit C name attrs a \<Longrightarrow> \<exists>m. messageFromAttribute C ic a = Inr m"
    by simp
  show "attribute_messages C ic name attrs cs a \<noteq> [] \<longleftrightarrow>
          prefixed a \<and> (\<exists>m. messageFromI18nAttribute C ic ?p a = Inr m)
          \<or> selected_implicit C name attrs a"
  proof (cases "prefixed a")
    case True
    then show ?thesis
      by (auto simp: attribute_messages_def selected_implicit_def split: sum.splits)
  next
    case False
    with returns show ?thesis
      by (auto simp: attribute_messages_def split: sum.splits)
  qed
next
  let ?p = "HtmlElementAst name attrs cs"
  let ?y = "attribute_messages C ic name attrs cs"
  let ?t = "\<lambda>a. attr_name a = ''i18n-title'' \<or> attr_name a = ''title''"
  assume h: "filter (\<lambda>a. attr_name a = ''i18n-title'') attrs = [i]
            \<and> messageFromI18nAttribute C ic ?p i = Inr m"
  then have "i \<in> set (filter (\<lambda>a. attr_name a = ''i18n-title'') attrs)" by simp
  then have i: "i \<in> set attrs" "attr_name i = ''i18n-title''" by simp_all
  then have pre: "prefixed i" and base: "base_name i = ''title''"
    by (simp_all add: prefixed_def base_name_def startsWith_def substring_def I18N_ATTR_PREFIX_def)
  have yi: "?y i = [m]" using pre h by (simp add: attribute_messages_def)
  have title: "?y a = []" if "attr_name a = ''title''" for a
  proof -
    from that have "\<not> prefixed a"
      by (simp add: prefixed_def startsWith_def I18N_ATTR_PREFIX_def)
    moreover from that i pre base have "\<not> selected_implicit C name attrs a"
      unfolding selected_implicit_def by auto
    ultimately show ?thesis by (simp add: attribute_messages_def)
  qed
  have "concat (map ?y (filter ?t xs)) = concat (map ?y (filter (\<lambda>a. attr_name a = ''i18n-title'') xs))"
    for xs
    by (induction xs) (auto simp: title)
  with h yi show "concat (map ?y (filter ?t attrs)) = [m]" by simp
qed

theorem attribute_selection_policy_witness:
  "extractMessagesFromAttributes example_collaborators example_ic
       (HtmlElementAst ''b'' [HtmlAttrAst ''title'' ''T'', HtmlAttrAst ''i18n-title'' ''tm|td''] [])
       \<lparr>this_messages = [], this_errors = []\<rparr>
     = Inr \<lparr>this_messages = [Message ''T'' (Some ''tm'') (Some ''td'')], this_errors = []\<rparr>
   \<and> concat (map (attribute_messages example_collaborators example_ic ''b''
                    [HtmlAttrAst ''title'' ''T'', HtmlAttrAst ''i18n-title'' ''tm|td''] [])
               (filter (\<lambda>a. attr_name a = ''i18n-title'' \<or> attr_name a = ''title'')
                  [HtmlAttrAst ''title'' ''T'', HtmlAttrAst ''i18n-title'' ''tm|td'']))
     = [Message ''T'' (Some ''tm'') (Some ''td'')]"
proof -
  let ?i = "HtmlAttrAst ''i18n-title'' ''tm|td''"
  let ?attrs = "[HtmlAttrAst ''title'' ''T'', ?i]"
  let ?p = "HtmlElementAst ''b'' ?attrs []"
  have run: "extractMessagesFromAttributes example_collaborators example_ic ?p
       \<lparr>this_messages = [], this_errors = []\<rparr>
     = Inr \<lparr>this_messages = [Message ''T'' (Some ''tm'') (Some ''td'')], this_errors = []\<rparr>"
    by (simp add: example_simps)
  have one: "filter (\<lambda>a. attr_name a = ''i18n-title'') ?attrs = [?i]" by simp
  have b: "messageFromI18nAttribute example_collaborators example_ic ?p ?i
     = Inr (Message ''T'' (Some ''tm'') (Some ''td''))"
    by (simp add: example_simps)
  from attribute_selection_policy [OF run, of ?i "Message ''T'' (Some ''tm'') (Some ''td'')"] one b
  have "concat (map (attribute_messages example_collaborators example_ic ''b'' ?attrs [])
               (filter (\<lambda>a. attr_name a = ''i18n-title'' \<or> attr_name a = ''title'') ?attrs))
     = [Message ''T'' (Some ''tm'') (Some ''td'')]"
    by blast
  with run show ?thesis by (intro conjI)
qed

text \<open>
  C5 as stated fails where the builder raises: the attribute i18n-alt has the prefix and
  yields an error and no message. And two attributes i18n-title yield two messages for
  title.
\<close>

theorem prefixed_attribute_without_message:
  "extractMessagesFromAttributes example_collaborators example_ic
       (HtmlElementAst ''b'' [HtmlAttrAst ''i18n-alt'' ''am''] [])
       \<lparr>this_messages = [], this_errors = []\<rparr>
     = Inr \<lparr>this_messages = [], this_errors = [I18nError ''Missing attribute alt'']\<rparr>
   \<and> extractMessagesFromAttributes example_collaborators example_ic
       (HtmlElementAst ''b''
          [HtmlAttrAst ''i18n-title'' ''x'', HtmlAttrAst ''i18n-title'' ''y'', HtmlAttrAst ''title'' ''T''] [])
       \<lparr>this_messages = [], this_errors = []\<rparr>
     = Inr \<lparr>this_messages = [Message ''T'' (Some ''x'') (Some []), Message ''T'' (Some ''y'') (Some [])],
            this_errors = []\<rparr>"
  by (simp add: example_simps)

text \<open>
  C10. When the builder raises an I18nError for a prefixed attribute, the name that the
  attribute claims is among the explicit names with which the first loop ends and the
  error is among the errors; no attribute of that name reaches the last filter or the
  second loop, so no implicit message is built for it. What is left of
  \<open>_extractMessagesFromAttributes\<close> is the TypeError of the last filter or the second loop
  on the attributes that passed it.
\<close>

theorem failed_prefixed_attribute_stays_claimed:
  assumes "a \<in> set attrs" and "prefixed a"
    and "messageFromI18nAttribute C ic (HtmlElementAst name attrs cs) a = Inl (ThrownI18nError e)"
    and "i18n_attrs_forEach C ic (HtmlElementAst name attrs cs) (filter prefixed attrs) (this, [])
           = Inr (this1, explicitAttrs)"
  shows "base_name a \<in> set explicitAttrs
       \<and> I18nError e \<in> set (this_errors this1)
       \<and> (\<forall>b \<in> set (unclaimed explicitAttrs attrs). attr_name b \<noteq> base_name a)
       \<and> (\<forall>b \<in> set (implicit_candidates (transAttrs_of C name) explicitAttrs attrs).
             attr_name b \<noteq> base_name a)
       \<and> extractMessagesFromAttributes C ic (HtmlElementAst name attrs cs) this
           = (if raises_TypeError C name explicitAttrs attrs then Inl (ThrownOther ''TypeError'')
              else implicit_attrs_forEach C ic
                     (implicit_candidates (transAttrs_of C name) explicitAttrs attrs) this1)"
proof -
  let ?p = "HtmlElementAst name attrs cs"
  let ?pre = "filter prefixed attrs"
  from assms(4) have ex: "explicitAttrs = map base_name ?pre"
    and this1: "this1 = this\<lparr>this_messages := this_messages this @ built_messages C ic ?p ?pre,
                             this_errors := this_errors this @ caught_errors C ic ?p ?pre\<rparr>"
    unfolding i18n_attrs_forEach_char by (simp_all split: option.splits)
  from assms(1,2) have mem: "a \<in> set ?pre" by simp
  then have 1: "base_name a \<in> set explicitAttrs" by (simp add: ex)
  from caught_errors_mem [OF mem assms(3)] have 2: "I18nError e \<in> set (this_errors this1)"
    by (simp add: this1)
  from 1 have 3: "\<forall>b \<in> set (implicit_candidates (transAttrs_of C name) explicitAttrs attrs).
             attr_name b \<noteq> base_name a"
    by (auto simp: implicit_candidates_def)
  from 1 have 5: "\<forall>b \<in> set (unclaimed explicitAttrs attrs). attr_name b \<noteq> base_name a"
    by (auto simp: unclaimed_def)
  have 4: "extractMessagesFromAttributes C ic ?p this
           = (if raises_TypeError C name explicitAttrs attrs then Inl (ThrownOther ''TypeError'')
              else implicit_attrs_forEach C ic
                     (implicit_candidates (transAttrs_of C name) explicitAttrs attrs) this1)"
    unfolding extractMessagesFromAttributes_phases assms(4) by simp
  from 1 2 3 4 5 show ?thesis by blast
qed

theorem failed_prefixed_attribute_stays_claimed_witness:
  "messageFromI18nAttribute example_collaborators example_ic
       (HtmlElementAst ''b'' [HtmlAttrAst ''i18n-title'' ''a|b|c'', HtmlAttrAst ''title'' ''T''] [])
       (HtmlAttrAst ''i18n-title'' ''a|b|c'')
     = Inl (ThrownI18nError ''Malformed marker value'')
   \<and> base_name (HtmlAttrAst ''i18n-title'' ''a|b|c'') = ''title''
   \<and> implicit_candidates (transAttrs_of example_collaborators ''b'') [''title'']
        [HtmlAttrAst ''i18n-title'' ''a|b|c'', HtmlAttrAst ''title'' ''T''] = []
   \<and> extractMessagesFromAttributes example_collaborators example_ic
       (HtmlElementAst ''b'' [HtmlAttrAst ''i18n-title'' ''a|b|c'', HtmlAttrAst ''title'' ''T''] [])
       \<lparr>this_messages = [], this_errors = []\<rparr>
     = Inr \<lparr>this_messages = [], this_errors = [I18nError ''Malformed marker value'']\<rparr>"
proof -
  let ?a = "HtmlAttrAst ''i18n-title'' ''a|b|c''"
  let ?attrs = "[?a, HtmlAttrAst ''title'' ''T'']"
  let ?p = "HtmlElementAst ''b'' ?attrs []"
  have 1: "?a \<in> set ?attrs" by simp
  have 2: "prefixed ?a" by (simp add: example_simps)
  have 3: "messageFromI18nAttribute example_collaborators example_ic ?p ?a
      = Inl (ThrownI18nError ''Malformed marker value'')"
    by (simp add: example_simps)
  have 4: "i18n_attrs_forEach example_collaborators example_ic ?p (filter prefixed ?attrs)
      (\<lparr>this_messages = [], this_errors = []\<rparr>, [])
     = Inr (\<lparr>this_messages = [], this_errors = [I18nError ''Malformed marker value'']\<rparr>, [''title''])"
    by (simp add: example_simps)
  have b: "base_name ?a = ''title''" by (simp add: example_simps)
  have c: "implicit_candidates (transAttrs_of example_collaborators ''b'') [''title''] ?attrs = []"
    by (simp add: example_simps implicit_candidates_def)
  have t: "\<not> raises_TypeError example_collaborators ''b'' [''title''] ?attrs"
    by (simp add: raises_TypeError_def transAttrs_value_def example_simps)
  from failed_prefixed_attribute_stays_claimed [OF 1 2 3 4] t
  have "extractMessagesFromAttributes example_collaborators example_ic ?p
          \<lparr>this_messages = [], this_errors = []\<rparr>
        = implicit_attrs_forEach example_collaborators example_ic
            (implicit_candidates (transAttrs_of example_collaborators ''b'') [''title''] ?attrs)
            \<lparr>this_messages = [], this_errors = [I18nError ''Malformed marker value'']\<rparr>"
    by simp
  with 3 b c show ?thesis by simp
qed

text \<open>
  C6. An I18nError raised for a prefixed attribute is appended to the errors and the
  loop goes on: every such error of the element is recorded and every message of its other
  prefixed attributes is built, and a walk all of whose elements complete returns with the
  messages and the errors of all of them. Any other thrown value, the TypeError of the
  last filter and whatever the builder of an implicit attribute throws end
  \<open>_extractMessagesFromAttributes\<close> with that value, and
  every frame between it and the caller of \<open>extract\<close> passes a thrown value on unchanged:
  the attribute walk, the part (translated or not, in its message, in its children or at
  its root element), the loop over the parts, \<open>_recurse\<close> (also for what \<open>partition\<close>
  throws) and \<open>extract\<close> itself (also for what the markup parser throws).
\<close>

theorem i18n_errors_collected_other_errors_propagate:
  "(first_rethrown C ic (HtmlElementAst name attrs cs) (filter prefixed attrs) = None \<longrightarrow>
      i18n_attrs_forEach C ic (HtmlElementAst name attrs cs) (filter prefixed attrs) (this, [])
        = Inr (this\<lparr>this_messages := this_messages this
                        @ built_messages C ic (HtmlElementAst name attrs cs) (filter prefixed attrs),
                    this_errors := this_errors this
                        @ caught_errors C ic (HtmlElementAst name attrs cs) (filter prefixed attrs)\<rparr>,
               map base_name (filter prefixed attrs)))
   \<and> (a \<in> set attrs \<and> prefixed a
        \<and> messageFromI18nAttribute C ic (HtmlElementAst name attrs cs) a = Inl (ThrownI18nError e) \<longrightarrow>
        I18nError e \<in> set (caught_errors C ic (HtmlElementAst name attrs cs) (filter prefixed attrs)))
   \<and> (a \<in> set attrs \<and> prefixed a
        \<and> messageFromI18nAttribute C ic (HtmlElementAst name attrs cs) a = Inr m \<longrightarrow>
        m \<in> set (built_messages C ic (HtmlElementAst name attrs cs) (filter prefixed attrs)))
   \<and> ((\<forall>p \<in> set (descendant_elements nodes). element_completes C ic p) \<longrightarrow>
        recurseToExtractMessagesFromAttributes C ic nodes this
          = Inr (this\<lparr>this_messages := this_messages this
                          @ concat (map (element_messages C ic) (descendant_elements nodes)),
                      this_errors := this_errors this
                          @ concat (map (element_errors C ic) (descendant_elements nodes))\<rparr>))
   \<and> (first_rethrown C ic (HtmlElementAst name attrs cs) (filter prefixed attrs) = Some x \<longrightarrow>
        extractMessagesFromAttributes C ic (HtmlElementAst name attrs cs) this = Inl (ThrownOther x))
   \<and> (a \<in> set attrs \<and> prefixed a
        \<and> messageFromI18nAttribute C ic (HtmlElementAst name attrs cs) a = Inl (ThrownOther x) \<longrightarrow>
        (\<exists>y. extractMessagesFromAttributes C ic (HtmlElementAst name attrs cs) this = Inl (ThrownOther y)))
   \<and> (first_rethrown C ic (HtmlElementAst name attrs cs) (filter prefixed attrs) = None
        \<and> raises_TypeError C name (map base_name (filter prefixed attrs)) attrs \<longrightarrow>
        extractMessagesFromAttributes C ic (HtmlElementAst name attrs cs) this
          = Inl (ThrownOther ''TypeError''))
   \<and> (first_rethrown C ic (HtmlElementAst name attrs cs) (filter prefixed attrs) = None
        \<and> \<not> raises_TypeError C name (map base_name (filter prefixed attrs)) attrs
        \<and> implicit_candidates (transAttrs_of C name) (map base_name (filter prefixed attrs)) attrs
            = before @ b # rest
        \<and> (\<forall>c \<in> set before. \<exists>m'. messageFromAttribute C ic c = Inr m')
        \<and> messageFromAttribute C ic b = Inl ex \<longrightarrow>
        extractMessagesFromAttributes C ic (HtmlElementAst name attrs cs) this = Inl ex)
   \<and> (\<not> is_element p \<longrightarrow>
        extractMessagesFromAttributes C ic p this = Inl (ThrownOther ''TypeError''))
   \<and> (descendant_elements nodes = es @ p # es' \<and> elements_forEach C ic es this = Inr this1
        \<and> extractMessagesFromAttributes C ic p this1 = Inl ex \<longrightarrow>
        recurseToExtractMessagesFromAttributes C ic nodes this = Inl ex)
   \<and> (hasI18n part \<and> createMessage C part ic = Inr m \<and> children part = Some nodes
        \<and> recurseToExtractMessagesFromAttributes C ic nodes
             (this\<lparr>this_messages := this_messages this @ [m]\<rparr>) = Inl ex \<longrightarrow>
        extractMessagesFromPart fuel C ic part this = Some (Inl ex))
   \<and> (hasI18n part \<and> createMessage C part ic = Inr m \<and> children part = Some nodes
        \<and> recurseToExtractMessagesFromAttributes C ic nodes
             (this\<lparr>this_messages := this_messages this @ [m]\<rparr>) = Inr this1
        \<and> rootElement part = Some p \<and> extractMessagesFromAttributes C ic p this1 = Inl ex \<longrightarrow>
        extractMessagesFromPart fuel C ic part this = Some (Inl ex))
   \<and> (hasI18n part \<and> createMessage C part ic = Inl ex \<longrightarrow>
        extractMessagesFromPart fuel C ic part this = Some (Inl ex))
   \<and> (hasI18n part \<and> createMessage C part ic = Inr m \<and> children part = None \<longrightarrow>
        extractMessagesFromPart fuel C ic part this = Some (Inl (ThrownOther ''TypeError'')))
   \<and> (\<not> hasI18n part \<and> recurse fuel C ic (children part) this = Some (Inl ex) \<longrightarrow>
        extractMessagesFromPart fuel C ic part this = Some (Inl ex))
   \<and> (\<not> hasI18n part \<and> recurse fuel C ic (children part) this = Some (Inr this1)
        \<and> rootElement part = Some p \<and> extractMessagesFromAttributes C ic p this1 = Inl ex \<longrightarrow>
        extractMessagesFromPart fuel C ic part this = Some (Inl ex))
   \<and> (parts_forEach fuel C ic ps this = Some (Inr this1)
        \<and> extractMessagesFromPart fuel C ic part this1 = Some (Inl ex) \<longrightarrow>
        parts_forEach fuel C ic (ps @ part # ps') this = Some (Inl ex))
   \<and> (partition C nodes (implicitTags C) = Inr (parts, errs)
        \<and> parts_forEach fuel C ic parts (this\<lparr>this_errors := this_errors this @ errs\<rparr>) = Some (Inl ex) \<longrightarrow>
        recurse (Suc fuel) C ic (Some nodes) this = Some (Inl ex))
   \<and> (partition C nodes (implicitTags C) = Inl ex \<longrightarrow>
        recurse (Suc fuel) C ic (Some nodes) this = Some (Inl ex))
   \<and> (htmlParser_parse C template sourceUrl True = Inr res \<and> parse_errors res = []
        \<and> recurse fuel C ic (Some (rootNodes res)) \<lparr>this_messages = [], this_errors = []\<rparr> = Some (Inl ex) \<longrightarrow>
        extract_template fuel C template sourceUrl ic this0 = Some (Inl ex))
   \<and> (htmlParser_parse C template sourceUrl True = Inl ex \<longrightarrow>
        extract_template fuel C template sourceUrl ic this0 = Some (Inl ex))"
proof (intro conjI impI; (elim conjE)?)
  let ?p = "HtmlElementAst name attrs cs"
  let ?pre = "filter prefixed attrs"
  show "i18n_attrs_forEach C ic ?p ?pre (this, [])
        = Inr (this\<lparr>this_messages := this_messages this @ built_messages C ic ?p ?pre,
                    this_errors := this_errors this @ caught_errors C ic ?p ?pre\<rparr>,
               map base_name ?pre)"
    if "first_rethrown C ic ?p ?pre = None"
    using that by (simp add: i18n_attrs_forEach_char)
  show "I18nError e \<in> set (caught_errors C ic ?p ?pre)"
    if "a \<in> set attrs" "prefixed a" "messageFromI18nAttribute C ic ?p a = Inl (ThrownI18nError e)"
    using that by (intro caught_errors_mem [of a]) simp_all
  show "m \<in> set (built_messages C ic ?p ?pre)"
    if "a \<in> set attrs" "prefixed a" "messageFromI18nAttribute C ic ?p a = Inr m"
    using that by (intro built_messages_mem [of a]) simp_all
  show "recurseToExtractMessagesFromAttributes C ic nodes this
          = Inr (this\<lparr>this_messages := this_messages this
                          @ concat (map (element_messages C ic) (descendant_elements nodes)),
                      this_errors := this_errors this
                          @ concat (map (element_errors C ic) (descendant_elements nodes))\<rparr>)"
    if "\<forall>p \<in> set (descendant_elements nodes). element_completes C ic p"
    using that by (simp add: walk_flatten elements_forEach_completes)
  show "extractMessagesFromAttributes C ic ?p this = Inl (ThrownOther x)"
    if "first_rethrown C ic ?p ?pre = Some x"
    using that unfolding extractMessagesFromAttributes_char by simp
  show "\<exists>y. extractMessagesFromAttributes C ic ?p this = Inl (ThrownOther y)"
    if "a \<in> set attrs" "prefixed a" "messageFromI18nAttribute C ic ?p a = Inl (ThrownOther x)"
  proof -
    from that have "a \<in> set ?pre" by simp
    from first_rethrown_mem [OF this that(3)] show ?thesis
      unfolding extractMessagesFromAttributes_char by auto
  qed
  show "extractMessagesFromAttributes C ic ?p this = Inl (ThrownOther ''TypeError'')"
    if "first_rethrown C ic ?p ?pre = None"
      "raises_TypeError C name (map base_name ?pre) attrs"
    using that unfolding extractMessagesFromAttributes_char by simp
  show "extractMessagesFromAttributes C ic ?p this = Inl ex"
    if "first_rethrown C ic ?p ?pre = None"
      "\<not> raises_TypeError C name (map base_name ?pre) attrs"
      "implicit_candidates (transAttrs_of C name) (map base_name ?pre) attrs = before @ b # rest"
      "\<forall>c \<in> set before. \<exists>m'. messageFromAttribute C ic c = Inr m'"
      "messageFromAttribute C ic b = Inl ex"
    using that unfolding extractMessagesFromAttributes_char
    by (simp add: implicit_attrs_forEach_throws)
  show "extractMessagesFromAttributes C ic p this = Inl (ThrownOther ''TypeError'')"
    if "\<not> is_element p"
    using that by (cases p) simp_all
  show "recurseToExtractMessagesFromAttributes C ic nodes this = Inl ex"
    if "descendant_elements nodes = es @ p # es'" "elements_forEach C ic es this = Inr this1"
      "extractMessagesFromAttributes C ic p this1 = Inl ex"
    using that by (simp add: walk_flatten elements_forEach_append)
  show "extractMessagesFromPart fuel C ic part this = Some (Inl ex)"
    if "hasI18n part" "createMessage C part ic = Inr m" "children part = Some nodes"
      "recurseToExtractMessagesFromAttributes C ic nodes
             (this\<lparr>this_messages := this_messages this @ [m]\<rparr>) = Inl ex"
    using that by (simp add: translatable_part)
  show "extractMessagesFromPart fuel C ic part this = Some (Inl ex)"
    if "hasI18n part" "createMessage C part ic = Inr m" "children part = Some nodes"
      "recurseToExtractMessagesFromAttributes C ic nodes
             (this\<lparr>this_messages := this_messages this @ [m]\<rparr>) = Inr this1"
      "rootElement part = Some p" "extractMessagesFromAttributes C ic p this1 = Inl ex"
    using that by (simp add: translatable_part)
  show "extractMessagesFromPart fuel C ic part this = Some (Inl ex)"
    if "hasI18n part" "createMessage C part ic = Inl ex"
    using that by (simp add: extractMessagesFromPart.simps)
  show "extractMessagesFromPart fuel C ic part this = Some (Inl (ThrownOther ''TypeError''))"
    if "hasI18n part" "createMessage C part ic = Inr m" "children part = None"
    using that by (simp add: extractMessagesFromPart.simps)
  show "extractMessagesFromPart fuel C ic part this = Some (Inl ex)"
    if "\<not> hasI18n part" "recurse fuel C ic (children part) this = Some (Inl ex)"
    using that by (simp add: untranslated_part)
  show "extractMessagesFromPart fuel C ic part this = Some (Inl ex)"
    if "\<not> hasI18n part" "recurse fuel C ic (children part) this = Some (Inr this1)"
      "rootElement part = Some p" "extractMessagesFromAttributes C ic p this1 = Inl ex"
    using that by (simp add: untranslated_part)
  show "parts_forEach fuel C ic (ps @ part # ps') this = Some (Inl ex)"
    if "parts_forEach fuel C ic ps this = Some (Inr this1)"
      "extractMessagesFromPart fuel C ic part this1 = Some (Inl ex)"
    using that by (simp add: parts_forEach_append)
  show "recurse (Suc fuel) C ic (Some nodes) this = Some (Inl ex)"
    if "partition C nodes (implicitTags C) = Inr (parts, errs)"
      "parts_forEach fuel C ic parts (this\<lparr>this_errors := this_errors this @ errs\<rparr>) = Some (Inl ex)"
    using that by simp
  show "recurse (Suc fuel) C ic (Some nodes) this = Some (Inl ex)"
    if "partition C nodes (implicitTags C) = Inl ex"
    using that by simp
  show "extract_template fuel C template sourceUrl ic this0 = Some (Inl ex)"
    if "htmlParser_parse C template sourceUrl True = Inr res" "parse_errors res = []"
      "recurse fuel C ic (Some (rootNodes res)) \<lparr>this_messages = [], this_errors = []\<rparr> = Some (Inl ex)"
    using that by (simp add: extract_template_def reset_fields)
  show "extract_template fuel C template sourceUrl ic this0 = Some (Inl ex)"
    if "htmlParser_parse C template sourceUrl True = Inl ex"
    using that by (simp add: extract_template_def)
qed

theorem i18n_errors_collected_other_errors_propagate_witness:
  "messageFromI18nAttribute example_collaborators example_ic
       (HtmlElementAst ''b'' [HtmlAttrAst ''i18n-alt'' ''am'', HtmlAttrAst ''i18n-title'' ''tm'',
          HtmlAttrAst ''title'' ''T''] [])
       (HtmlAttrAst ''i18n-alt'' ''am'')
     = Inl (ThrownI18nError ''Missing attribute alt'')
   \<and> I18nError ''Missing attribute alt''
       \<in> set (caught_errors example_collaborators example_ic
                (HtmlElementAst ''b'' [HtmlAttrAst ''i18n-alt'' ''am'', HtmlAttrAst ''i18n-title'' ''tm'',
                   HtmlAttrAst ''title'' ''T''] [])
                (filter prefixed [HtmlAttrAst ''i18n-alt'' ''am'', HtmlAttrAst ''i18n-title'' ''tm'',
                   HtmlAttrAst ''title'' ''T'']))
   \<and> Message ''T'' (Some ''tm'') (Some [])
       \<in> set (built_messages example_collaborators example_ic
                (HtmlElementAst ''b'' [HtmlAttrAst ''i18n-alt'' ''am'', HtmlAttrAst ''i18n-title'' ''tm'',
                   HtmlAttrAst ''title'' ''T''] [])
                (filter prefixed [HtmlAttrAst ''i18n-alt'' ''am'', HtmlAttrAst ''i18n-title'' ''tm'',
                   HtmlAttrAst ''title'' ''T'']))
   \<and> recurse 2 example_collaborators (InterpolationConfig [] []) (Some example_document)
         \<lparr>this_messages = [], this_errors = []\<rparr>
       = Some (Inl (ThrownOther ''empty interpolation marker''))
   \<and> extract_template 2 example_collaborators ''doc'' ''a.html'' (InterpolationConfig [] [])
         \<lparr>this_messages = [], this_errors = []\<rparr>
       = Some (Inl (ThrownOther ''empty interpolation marker''))
   \<and> extractMessagesFromAttributes example_collaborators example_ic
         (HtmlElementAst ''constructor'' [HtmlAttrAst ''i18n'' [], HtmlAttrAst ''title'' ''T'']
            [HtmlTextAst ''x''])
         \<lparr>this_messages = [Message ''x'' (Some []) None], this_errors = []\<rparr>
       = Inl (ThrownOther ''TypeError'')
   \<and> extractMessagesFromPart 0 example_collaborators example_ic
         (Part (Some (HtmlElementAst ''constructor'' [HtmlAttrAst ''i18n'' [], HtmlAttrAst ''title'' ''T'']
                        [HtmlTextAst ''x'']))
            None (Some [HtmlTextAst ''x'']) (Some []) True)
         \<lparr>this_messages = [], this_errors = []\<rparr>
       = Some (Inl (ThrownOther ''TypeError''))"
proof -
  let ?alt = "HtmlAttrAst ''i18n-alt'' ''am''"
  let ?title = "HtmlAttrAst ''i18n-title'' ''tm''"
  let ?attrs = "[?alt, ?title, HtmlAttrAst ''title'' ''T'']"
  let ?p = "HtmlElementAst ''b'' ?attrs []"
  let ?bad = "InterpolationConfig [] []"
  let ?start = "\<lparr>this_messages = [], this_errors = []\<rparr>"
  have raised: "messageFromI18nAttribute example_collaborators example_ic ?p ?alt
      = Inl (ThrownI18nError ''Missing attribute alt'')"
    by (simp add: example_simps)
  have built: "messageFromI18nAttribute example_collaborators example_ic ?p ?title
      = Inr (Message ''T'' (Some ''tm'') (Some []))"
    by (simp add: example_simps)
  have pre: "prefixed ?alt" "prefixed ?title" by (simp_all add: example_simps)
  have mem: "?alt \<in> set ?attrs" "?title \<in> set ?attrs" by simp_all
  have parsed: "htmlParser_parse example_collaborators ''doc'' ''a.html'' True
      = Inr (HtmlParseTreeResult example_document [])"
    by (simp add: example_collaborators_def example_parse_def)
  have thrown: "recurse 2 example_collaborators ?bad (Some example_document) ?start
      = Some (Inl (ThrownOther ''empty interpolation marker''))"
    by (simp add: example_simps extractMessagesFromPart.simps numeral_2_eq_2)
  from i18n_errors_collected_other_errors_propagate
         [where C = example_collaborators and ic = example_ic and name = "''b''" and attrs = ?attrs
            and cs = "[]" and a = ?alt and e = "''Missing attribute alt''",
          THEN conjunct2, THEN conjunct1]
       raised pre(1) mem(1)
  have 1: "I18nError ''Missing attribute alt''
       \<in> set (caught_errors example_collaborators example_ic ?p (filter prefixed ?attrs))"
    by simp
  from i18n_errors_collected_other_errors_propagate
         [where C = example_collaborators and ic = example_ic and name = "''b''" and attrs = ?attrs
            and cs = "[]" and a = ?title and m = "Message ''T'' (Some ''tm'') (Some [])",
          THEN conjunct2, THEN conjunct2, THEN conjunct1]
       built pre(2) mem(2)
  have 2: "Message ''T'' (Some ''tm'') (Some [])
       \<in> set (built_messages example_collaborators example_ic ?p (filter prefixed ?attrs))"
    by simp
  from i18n_errors_collected_other_errors_propagate
         [where C = example_collaborators and ic = ?bad and template = "''doc''"
            and sourceUrl = "''a.html''" and fuel = 2 and res = "HtmlParseTreeResult example_document []"
            and ex = "ThrownOther ''empty interpolation marker''" and ?this0.0 = ?start,
          THEN conjunct2, THEN conjunct2, THEN conjunct2, THEN conjunct2, THEN conjunct2, THEN conjunct2, THEN conjunct2, THEN conjunct2, THEN conjunct2, THEN conjunct2, THEN conjunct2, THEN conjunct2, THEN conjunct2, THEN conjunct2, THEN conjunct2, THEN conjunct2, THEN conjunct2, THEN conjunct2, THEN conjunct2, THEN conjunct1]
       parsed thrown
  have 3: "extract_template 2 example_collaborators ''doc'' ''a.html'' ?bad ?start
       = Some (Inl (ThrownOther ''empty interpolation marker''))"
    by simp
  let ?root = "HtmlElementAst ''constructor'' [HtmlAttrAst ''i18n'' [], HtmlAttrAst ''title'' ''T'']
                 [HtmlTextAst ''x'']"
  let ?part = "Part (Some ?root) None (Some [HtmlTextAst ''x'']) (Some []) True"
  let ?after = "\<lparr>this_messages = [Message ''x'' (Some []) None], this_errors = []\<rparr>"
  have none: "first_rethrown example_collaborators example_ic ?root
      (filter prefixed [HtmlAttrAst ''i18n'' [], HtmlAttrAst ''title'' ''T'']) = None"
    by (simp add: example_simps)
  have type_error: "raises_TypeError example_collaborators ''constructor''
      (map base_name (filter prefixed [HtmlAttrAst ''i18n'' [], HtmlAttrAst ''title'' ''T'']))
      [HtmlAttrAst ''i18n'' [], HtmlAttrAst ''title'' ''T'']"
    by (simp add: raises_TypeError_def transAttrs_value_def unclaimed_def example_simps)
  from i18n_errors_collected_other_errors_propagate
         [where C = example_collaborators and ic = example_ic and name = "''constructor''"
            and attrs = "[HtmlAttrAst ''i18n'' [], HtmlAttrAst ''title'' ''T'']"
            and cs = "[HtmlTextAst ''x'']" and this = ?after,
          THEN conjunct2, THEN conjunct2, THEN conjunct2, THEN conjunct2, THEN conjunct2, THEN conjunct2, THEN conjunct1]
       none type_error
  have 4: "extractMessagesFromAttributes example_collaborators example_ic ?root ?after
       = Inl (ThrownOther ''TypeError'')"
    by simp
  have message: "createMessage example_collaborators ?part example_ic = Inr (Message ''x'' (Some []) None)"
    by (simp add: example_simps)
  have walked: "recurseToExtractMessagesFromAttributes example_collaborators example_ic [HtmlTextAst ''x'']
      (?start\<lparr>this_messages := this_messages ?start @ [Message ''x'' (Some []) None]\<rparr>) = Inr ?after"
    by simp
  from i18n_errors_collected_other_errors_propagate
         [where C = example_collaborators and ic = example_ic and part = ?part and fuel = 0
            and m = "Message ''x'' (Some []) None" and nodes = "[HtmlTextAst ''x'']"
            and this = ?start and ?this1.0 = ?after and p = ?root
            and ex = "ThrownOther ''TypeError''",
          THEN conjunct2, THEN conjunct2, THEN conjunct2, THEN conjunct2, THEN conjunct2, THEN conjunct2, THEN conjunct2, THEN conjunct2, THEN conjunct2, THEN conjunct2, THEN conjunct2, THEN conjunct1]
       message walked 4
  have 5: "extractMessagesFromPart 0 example_collaborators example_ic ?part ?start
       = Some (Inl (ThrownOther ''TypeError''))"
    by simp
  from raised 1 2 thrown 3 4 5 show ?thesis by (intro conjI)
qed

section \<open>Properties of the partitioner\<close>









text \<open>
  With this partitioner the walk of the extractor returns: the children of a part that is
  not translated are those of an element among the siblings, so the fuel needed is bounded
  by the size of the nodes.
\<close>

lemma partition_scan_children:
  "p \<in> set (fst (partition_scan marker opens closes tags st ns)) \<Longrightarrow>
   hasI18n p \<or> children p = None
   \<or> (\<exists>name attrs cs. HtmlElementAst name attrs cs \<in> set ns \<and> children p = Some cs)"
proof (induction marker opens closes tags st ns rule: partition_scan.induct)
  case (3 marker opens closes tags n ns)
  show ?case
  proof (cases "is_comment_with opens n")
    case True
    with "3.IH"(1) "3.prems" show ?thesis by auto
  next
    case False
    obtain ps es where pe: "partition_scan marker opens closes tags None ns = (ps, es)"
      by (cases "partition_scan marker opens closes tags None ns")
    with False "3.prems" consider "p \<in> set (node_parts marker tags n)" | "p \<in> set ps" by auto
    then show ?thesis
    proof cases
      case 1
      then show ?thesis by (cases n) auto
    next
      case 2
      with "3.IH"(2) [OF False] pe show ?thesis by auto
    qed
  qed
next
  case (4 marker opens closes tags c span n ns)
  show ?case
  proof (cases "is_comment_with closes n")
    case True
    obtain ps es where pe: "partition_scan marker opens closes tags None ns = (ps, es)"
      by (cases "partition_scan marker opens closes tags None ns")
    with True "4.prems" consider "p = Part None None (Some span) (Some c) True" | "p \<in> set ps" by auto
    then show ?thesis
    proof cases
      case 1
      then show ?thesis by simp
    next
      case 2
      with "4.IH"(1) [OF True] pe show ?thesis by auto
    qed
  next
    case False
    with "4.IH"(2) "4.prems" show ?thesis by auto
  qed
qed simp_all

lemma children_smaller:
  "HtmlElementAst name attrs cs \<in> set ns \<Longrightarrow> size_list size cs < size_list size ns"
  by (induction ns) auto

lemma parts_forEach_returns:
  "(\<And>p this. p \<in> set ps \<Longrightarrow> \<exists>r. extractMessagesFromPart k C ic p this = Some r) \<Longrightarrow>
   \<exists>r. parts_forEach k C ic ps this = Some r"
proof (induction ps arbitrary: this)
  case Nil
  show ?case by simp
next
  case (Cons p ps)
  from Cons.prems [of p this] obtain r where r: "extractMessagesFromPart k C ic p this = Some r"
    by auto
  show ?case
  proof (cases r)
    case (Inl e)
    with r show ?thesis by simp
  next
    case (Inr this')
    from Cons.IH [of this'] Cons.prems obtain r' where "parts_forEach k C ic ps this' = Some r'"
      by auto
    with r Inr show ?thesis by simp
  qed
qed

lemma extractMessagesFromPart_returns:
  assumes "hasI18n p \<or> (\<exists>r. recurse k C ic (children p) this = Some r)"
  shows "\<exists>r. extractMessagesFromPart k C ic p this = Some r"
  using assms
  by (auto simp: extractMessagesFromPart.simps split: sum.splits option.splits)

lemma recurse_step:
  assumes part: "partition C = (\<lambda>nodes tags. Inr (partition_spec marker opens closes nodes tags))"
    and deeper: "\<And>cs this. size_list size cs < size_list size nodes \<Longrightarrow>
                   \<exists>r. recurse k C ic (Some cs) this = Some r"
  shows "\<exists>r. recurse (Suc k) C ic (Some nodes) this = Some r"
proof -
  obtain parts errs where pe: "partition_spec marker opens closes nodes (implicitTags C) = (parts, errs)"
    by (cases "partition_spec marker opens closes nodes (implicitTags C)")
  have "\<exists>r. extractMessagesFromPart k C ic p this' = Some r" if "p \<in> set parts" for p this'
  proof -
    from that pe have "p \<in> set (fst (partition_scan marker opens closes (implicitTags C) None nodes))"
      by (simp add: partition_spec_def)
    from partition_scan_children [OF this]
    consider "hasI18n p" | "children p = None"
      | name attrs cs where "HtmlElementAst name attrs cs \<in> set nodes" "children p = Some cs"
      by auto
    then show ?thesis
    proof cases
      case 1
      then show ?thesis by (intro extractMessagesFromPart_returns) simp
    next
      case 2
      then show ?thesis by (intro extractMessagesFromPart_returns) simp
    next
      case 3
      from children_smaller [OF 3(1)] deeper [of cs this'] 3(2) show ?thesis
        by (intro extractMessagesFromPart_returns) simp
    qed
  qed
  from parts_forEach_returns [of parts k C ic, OF this]
  obtain r where "parts_forEach k C ic parts (this\<lparr>this_errors := this_errors this @ errs\<rparr>) = Some r"
    by blast
  with part pe show ?thesis by simp
qed

lemma recurse_partition_spec_returns:
  assumes "partition C = (\<lambda>nodes tags. Inr (partition_spec marker opens closes nodes tags))"
    and "size_list size nodes \<le> k"
  shows "\<exists>r. recurse (Suc k) C ic (Some nodes) this = Some r"
  using assms(2)
proof (induction k arbitrary: nodes this)
  case 0
  show ?case by (rule recurse_step [OF assms(1)]) (use 0 in simp)
next
  case (Suc k)
  show ?case
  proof (rule recurse_step [OF assms(1)])
    fix cs :: "HtmlAst list" and this' :: MessageExtractor
    assume "size_list size cs < size_list size nodes"
    with Suc.prems have "size_list size cs \<le> k" by simp
    then show "\<exists>r. recurse (Suc k) C ic (Some cs) this' = Some r" by (rule Suc.IH)
  qed
qed

lemma extract_template_partition_spec_returns:
  assumes "partition C = (\<lambda>nodes tags. Inr (partition_spec marker opens closes nodes tags))"
  shows "\<exists>fuel r. extract_template fuel C template sourceUrl ic this0 = Some r"
proof (cases "htmlParser_parse C template sourceUrl True")
  case (Inl e)
  then show ?thesis by (simp add: extract_template_def)
next
  case (Inr res)
  from recurse_partition_spec_returns [OF assms order_refl]
  obtain r where "recurse (Suc (size_list size (rootNodes res))) C ic (Some (rootNodes res))
      \<lparr>this_messages = [], this_errors = []\<rparr> = Some r"
    by blast
  with Inr have "\<exists>r'. extract_template (Suc (size_list size (rootNodes res))) C template sourceUrl ic this0
      = Some r'"
    by (cases r) (simp_all add: extract_template_def reset_fields Let_def del: recurse.simps)
  then show ?thesis by blast
qed

end
